theory Spec2Isabelle
  imports Main "HOL-Library.Multiset" "HOL-Library.Log_Nat"
begin

section \<open>Data model: pixels, list objects and the object store\<close>

text \<open>
  The plug-in functions of \<^verbatim>\<open>plugins.py\<close> work on an image buffer: a Python list of
  rows, each row a Python list of pixel objects. Lists and pixels are mutable objects
  that the functions reach through references, so the model keeps them in an explicit
  store. A reference is an index into the store; allocation appends to it.
\<close>

type_synonym ref = nat

record pixel =
  red :: int
  green :: int
  blue :: int
  alpha :: int

datatype obj = PyList "ref list" | PyPixel pixel

type_synonym heap = "obj list"

text \<open>
  The exceptions the functions can raise. \<open>BadReference\<close> has no Python counterpart: it
  is what the model answers for a reference outside the store.
\<close>

datatype error = AssertionError | IndexError | TypeError | AttributeError | BadReference

text \<open>
  A raised exception ends the call and leaves the store as it is at that moment: a
  failing operation answers \<open>Inl (e, h)\<close>, the exception and the store it leaves behind.
\<close>

text \<open>Python values that are passed as flags and returned by the plug-ins.\<close>

datatype pyval = VNone | VBool bool | VInt int | VFloat rat | VStr string | VRef ref

definition and_then :: "'e + 'a \<Rightarrow> ('a \<Rightarrow> 'e + 'b) \<Rightarrow> 'e + 'b" where
  "and_then m f = (case m of Inl e \<Rightarrow> Inl e | Inr x \<Rightarrow> f x)"

definition deref :: "heap \<Rightarrow> ref \<Rightarrow> obj option" where
  "deref h r = (if r < length h then Some (h ! r) else None)"

text \<open>\<^verbatim>\<open>len(x)\<close>\<close>

definition len :: "heap \<Rightarrow> ref \<Rightarrow> error \<times> heap + nat" where
  "len h r = (case deref h r of
      None \<Rightarrow> Inl (BadReference, h)
    | Some (PyPixel _) \<Rightarrow> Inl (TypeError, h)
    | Some (PyList xs) \<Rightarrow> Inr (length xs))"

text \<open>\<^verbatim>\<open>x[i]\<close> for an index \<open>i\<close> that comes from \<^verbatim>\<open>range\<close>, hence is not negative.\<close>

definition getitem :: "heap \<Rightarrow> ref \<Rightarrow> nat \<Rightarrow> error \<times> heap + ref" where
  "getitem h r i = (case deref h r of
      None \<Rightarrow> Inl (BadReference, h)
    | Some (PyPixel _) \<Rightarrow> Inl (TypeError, h)
    | Some (PyList xs) \<Rightarrow> if i < length xs then Inr (xs ! i) else Inl (IndexError, h))"

text \<open>Reading the channels of \<^verbatim>\<open>pixel\<close>: \<^verbatim>\<open>pixel.red\<close>, \<^verbatim>\<open>pixel.green\<close>, \<^verbatim>\<open>pixel.blue\<close>.\<close>

definition getattrs :: "heap \<Rightarrow> ref \<Rightarrow> error \<times> heap + pixel" where
  "getattrs h p = (case deref h p of
      None \<Rightarrow> Inl (BadReference, h)
    | Some (PyList _) \<Rightarrow> Inl (AttributeError, h)
    | Some (PyPixel px) \<Rightarrow> Inr px)"

text \<open>An attribute assignment \<^verbatim>\<open>pixel.red = v\<close>, given as the update of the pixel.\<close>

definition setattr :: "heap \<Rightarrow> ref \<Rightarrow> (pixel \<Rightarrow> pixel) \<Rightarrow> error \<times> heap + heap" where
  "setattr h p f = (case deref h p of
      None \<Rightarrow> Inl (BadReference, h)
    | Some (PyList _) \<Rightarrow> Inl (AttributeError, h)
    | Some (PyPixel px) \<Rightarrow> Inr (h[p := PyPixel (f px)]))"

text \<open>\<^verbatim>\<open>x.reverse()\<close>, \<^verbatim>\<open>x.clear()\<close>, \<^verbatim>\<open>x.append(y)\<close> and the list display \<^verbatim>\<open>[]\<close>.\<close>

definition list_reverse :: "heap \<Rightarrow> ref \<Rightarrow> error \<times> heap + heap" where
  "list_reverse h r = (case deref h r of
      None \<Rightarrow> Inl (BadReference, h)
    | Some (PyPixel _) \<Rightarrow> Inl (AttributeError, h)
    | Some (PyList xs) \<Rightarrow> Inr (h[r := PyList (rev xs)]))"

definition list_clear :: "heap \<Rightarrow> ref \<Rightarrow> error \<times> heap + heap" where
  "list_clear h r = (case deref h r of
      None \<Rightarrow> Inl (BadReference, h)
    | Some (PyPixel _) \<Rightarrow> Inl (AttributeError, h)
    | Some (PyList xs) \<Rightarrow> Inr (h[r := PyList []]))"

definition list_append :: "heap \<Rightarrow> ref \<Rightarrow> ref \<Rightarrow> error \<times> heap + heap" where
  "list_append h r x = (case deref h r of
      None \<Rightarrow> Inl (BadReference, h)
    | Some (PyPixel _) \<Rightarrow> Inl (AttributeError, h)
    | Some (PyList xs) \<Rightarrow> Inr (h[r := PyList (xs @ [x])]))"

definition new_list :: "heap \<Rightarrow> heap \<times> ref" where
  "new_list h = (h @ [PyList []], length h)"

text \<open>
  A \<^verbatim>\<open>for\<close> loop over a sequence that the body does not change: the body runs on the
  items in order, and the first exception ends the loop.
\<close>

fun for_each :: "'i list \<Rightarrow> ('i \<Rightarrow> 's \<Rightarrow> 'e + 's) \<Rightarrow> 's \<Rightarrow> 'e + 's" where
  "for_each [] body s = Inr s"
| "for_each (i # is) body s =
     (case body i s of Inl e \<Rightarrow> Inl e | Inr s' \<Rightarrow> for_each is body s')"

section \<open>Binary floating point\<close>

text \<open>
  \<^verbatim>\<open>mono\<close> computes in Python floats, which are IEEE 754 binary64 numbers. A finite
  float is a rational number, and every operation returns the exact result rounded to
  the nearest number with a 53-bit significand, ties to the even significand. The model
  covers the normal range (no overflow, no subnormal numbers), which holds every value
  \<^verbatim>\<open>mono\<close> meets on channels between 0 and 255.
\<close>

definition pow2 :: "int \<Rightarrow> rat" where
  "pow2 k = (if 0 \<le> k then 2 ^ nat k else 1 / 2 ^ nat (- k))"

text \<open>\<open>ilog2 q\<close> is the integer \<open>k\<close> with \<open>2 ^ k \<le> q < 2 ^ (k + 1)\<close>, for a positive \<open>q\<close>.\<close>

definition ilog2 :: "rat \<Rightarrow> int" where
  "ilog2 q = (let (a, b) = quotient_of q; d = bitlen a - bitlen b
              in if pow2 d \<le> q then d else d - 1)"

definition round_even :: "rat \<Rightarrow> int" where
  "round_even q = (let f = \<lfloor>q\<rfloor>; d = q - of_int f
                   in if d < 1 / 2 then f else if 1 / 2 < d then f + 1
                      else if even f then f else f + 1)"

definition fl :: "rat \<Rightarrow> rat" where
  "fl q = (if q = 0 then 0
           else let e = ilog2 \<bar>q\<bar> - 52 in of_int (round_even (q / pow2 e)) * pow2 e)"

text \<open>\<^verbatim>\<open>x * y\<close> and \<^verbatim>\<open>x + y\<close> on floats, the conversion of an int operand, and \<^verbatim>\<open>int(x)\<close>.\<close>

definition fmul :: "rat \<Rightarrow> rat \<Rightarrow> rat" where
  "fmul x y = fl (x * y)"

definition fadd :: "rat \<Rightarrow> rat \<Rightarrow> rat" where
  "fadd x y = fl (x + y)"

definition float_of_int :: "int \<Rightarrow> rat" where
  "float_of_int n = fl (of_int n)"

definition int_of_float :: "rat \<Rightarrow> int" where
  "int_of_float x = (if 0 \<le> x then \<lfloor>x\<rfloor> else - \<lfloor>- x\<rfloor>)"

section \<open>The plug-in functions\<close>

subsection \<open>display\<close>

text \<open>
  \<^verbatim>\<open>repr(pixel)\<close> belongs to the pixel class, which is not part of \<^verbatim>\<open>plugins.py\<close>:
  it is the parameter \<open>repr\<close>. The printed lines are returned with the store and the
  value of the call.
\<close>

definition items :: "heap \<Rightarrow> ref \<Rightarrow> error \<times> heap + ref list" where
  "items h r = (case deref h r of
      None \<Rightarrow> Inl (BadReference, h)
    | Some (PyPixel _) \<Rightarrow> Inl (TypeError, h)
    | Some (PyList xs) \<Rightarrow> Inr xs)"

definition repr_at :: "(obj \<Rightarrow> string) \<Rightarrow> heap \<Rightarrow> ref \<Rightarrow> error \<times> heap + string" where
  "repr_at repr h r = (case deref h r of None \<Rightarrow> Inl (BadReference, h) | Some x \<Rightarrow> Inr (repr x))"

definition display :: "(obj \<Rightarrow> string) \<Rightarrow> heap \<Rightarrow> ref \<Rightarrow> error \<times> heap + heap \<times> string list \<times> pyval" where
  "display repr h img =
     and_then (len h img) (\<lambda>height.
     and_then (getitem h img 0) (\<lambda>row0.
     and_then (len h row0) (\<lambda>width.
     and_then (items h img) (\<lambda>rows.
     and_then (for_each rows (\<lambda>row maxsize.
                 and_then (items h row) (\<lambda>pixels.
                 for_each pixels (\<lambda>pixel maxsize.
                   and_then (repr_at repr h pixel) (\<lambda>text.
                   Inr (if length text > maxsize then length text else maxsize))) maxsize))
               0) (\<lambda>maxsize.
     and_then (for_each [0..<height] (\<lambda>pos1 out.
                 and_then (getitem h img pos1) (\<lambda>row.
                 for_each [0..<width] (\<lambda>pos2 out.
                   and_then (getitem h row pos2) (\<lambda>pixel.
                   and_then (repr_at repr h pixel) (\<lambda>middle.
                   let padding = maxsize - length middle;
                       prefix = (if pos1 = 0 \<and> pos2 = 0 then ''[  [  ''
                                 else if pos2 = 0 then ''   [  '' else ''      '');
                       suffix = (if Suc pos1 = height \<and> Suc pos2 = width
                                   then replicate padding CHR '' '' @ '' ]  ]''
                                 else if Suc pos2 = width
                                   then replicate padding CHR '' '' @ '' ],''
                                 else '','')
                   in Inr (out @ [prefix @ middle @ suffix])))) out))
               ['''']) (\<lambda>out.
     Inr (h, out, VNone)))))))"

subsection \<open>dered\<close>

definition dered :: "heap \<Rightarrow> ref \<Rightarrow> error \<times> heap + heap \<times> pyval" where
  "dered h img =
     and_then (len h img) (\<lambda>height.
     and_then (getitem h img 0) (\<lambda>row0.
     and_then (len h row0) (\<lambda>width.
     and_then (for_each [0..<height] (\<lambda>row.
                 for_each [0..<width] (\<lambda>col h.
                   and_then (getitem h img row) (\<lambda>r.
                   and_then (getitem h r col) (\<lambda>pixel.
                   setattr h pixel (\<lambda>px. px\<lparr>red := 0\<rparr>))))) h) (\<lambda>h.
     Inr (h, VBool True)))))"

subsection \<open>mono\<close>

text \<open>\<^verbatim>\<open>pixel.red * 0.3 + pixel.green * 0.6 + pixel.blue * 0.1\<close>, evaluated left to right.\<close>

definition brightness :: "pixel \<Rightarrow> rat" where
  "brightness px =
     fadd (fadd (fmul (float_of_int (red px)) (fl (3 / 10)))
                (fmul (float_of_int (green px)) (fl (6 / 10))))
          (fmul (float_of_int (blue px)) (fl (1 / 10)))"

definition mono_image :: "heap \<Rightarrow> ref \<Rightarrow> pyval \<Rightarrow> error \<times> heap + heap \<times> pyval" where
  "mono_image h img sepia =
     (case sepia of
        VBool sepia \<Rightarrow>
          and_then (len h img) (\<lambda>height.
          and_then (getitem h img 0) (\<lambda>row0.
          and_then (len h row0) (\<lambda>width.
          and_then (for_each [0..<height] (\<lambda>row.
                      for_each [0..<width] (\<lambda>col h.
                        and_then (getitem h img row) (\<lambda>r.
                        and_then (getitem h r col) (\<lambda>pixel.
                        and_then (getattrs h pixel) (\<lambda>px.
                        let b = brightness px in
                        and_then (if \<not> sepia then
                                    and_then (setattr h pixel (\<lambda>px. px\<lparr>red := int_of_float b\<rparr>)) (\<lambda>h.
                                    and_then (setattr h pixel (\<lambda>px. px\<lparr>green := int_of_float b\<rparr>)) (\<lambda>h.
                                    setattr h pixel (\<lambda>px. px\<lparr>blue := int_of_float b\<rparr>)))
                                  else Inr h) (\<lambda>h.
                        if sepia then
                          and_then (setattr h pixel (\<lambda>px. px\<lparr>red := int_of_float b\<rparr>)) (\<lambda>h.
                          and_then (setattr h pixel
                                      (\<lambda>px. px\<lparr>green := int_of_float (fmul (fl (6 / 10)) b)\<rparr>)) (\<lambda>h.
                          setattr h pixel (\<lambda>px. px\<lparr>blue := int_of_float (fmul (fl (4 / 10)) b)\<rparr>)))
                        else Inr h)))))) h) (\<lambda>h.
          Inr (h, VBool True)))))
      | _ \<Rightarrow> Inl (AssertionError, h))"

subsection \<open>flip\<close>

definition flip :: "heap \<Rightarrow> ref \<Rightarrow> pyval \<Rightarrow> error \<times> heap + heap \<times> pyval" where
  "flip h img vertical =
     (case vertical of
        VBool vertical \<Rightarrow>
          and_then (len h img) (\<lambda>height.
          and_then (getitem h img 0) (\<lambda>row0.
          and_then (len h row0) (\<lambda>width.
          and_then (if \<not> vertical then
                      for_each [0..<height] (\<lambda>col h.
                        and_then (getitem h img col) (\<lambda>r. list_reverse h r)) h
                    else Inr h) (\<lambda>h.
          and_then (if vertical then list_reverse h img else Inr h) (\<lambda>h.
          Inr (h, VBool True))))))
      | _ \<Rightarrow> Inl (AssertionError, h))"

subsection \<open>transpose\<close>

text \<open>
  The accumulator \<^verbatim>\<open>result\<close> never leaves the function, so it is a local value of the
  model; every \<^verbatim>\<open>row\<close> ends up in the image and is allocated in the store.
\<close>

definition transpose_image :: "heap \<Rightarrow> ref \<Rightarrow> error \<times> heap + heap \<times> pyval" where
  "transpose_image h img =
     and_then (len h img) (\<lambda>numrows.
     and_then (getitem h img 0) (\<lambda>row0.
     and_then (len h row0) (\<lambda>numcols.
     and_then (for_each [0..<numcols] (\<lambda>co (h, result).
                 let (h, row) = new_list h in
                 and_then (for_each [0..<numrows] (\<lambda>ro h.
                             and_then (getitem h img ro) (\<lambda>r.
                             and_then (getitem h r co) (\<lambda>pixel.
                             list_append h row pixel))) h) (\<lambda>h.
                 Inr (h, result @ [row]))) (h, [])) (\<lambda>(h, result).
     and_then (list_clear h img) (\<lambda>h.
     and_then (for_each result (\<lambda>row h. list_append h img row) h) (\<lambda>h.
     Inr (h, VBool True)))))))"

subsection \<open>rotate\<close>

definition rotate_image :: "heap \<Rightarrow> ref \<Rightarrow> pyval \<Rightarrow> error \<times> heap + heap \<times> pyval" where
  "rotate_image h img right =
     (case right of
        VBool right \<Rightarrow>
          and_then (if \<not> right then
                      and_then (transpose_image h img) (\<lambda>(h, _). list_reverse h img)
                    else Inr h) (\<lambda>h.
          and_then (if right then
                      and_then (list_reverse h img) (\<lambda>h.
                      and_then (transpose_image h img) (\<lambda>(h, _). Inr h))
                    else Inr h) (\<lambda>h.
          Inr (h, VBool True)))
      | _ \<Rightarrow> Inl (AssertionError, h))"

section \<open>Well-formed image buffers\<close>

definition rows_of :: "heap \<Rightarrow> ref \<Rightarrow> ref list" where
  "rows_of h img = (case deref h img of Some (PyList rs) \<Rightarrow> rs | _ \<Rightarrow> [])"

definition grid :: "heap \<Rightarrow> ref \<Rightarrow> ref list list" where
  "grid h img = map (rows_of h) (rows_of h img)"

definition is_list :: "heap \<Rightarrow> ref \<Rightarrow> bool" where
  "is_list h r = (case deref h r of Some (PyList _) \<Rightarrow> True | _ \<Rightarrow> False)"

definition is_pixel :: "heap \<Rightarrow> ref \<Rightarrow> bool" where
  "is_pixel h r = (case deref h r of Some (PyPixel _) \<Rightarrow> True | _ \<Rightarrow> False)"

text \<open>
  \<open>rect_image h img R C\<close>: in the store \<open>h\<close>, \<open>img\<close> is a list of \<open>R\<close> rows, every
  row is a list of \<open>C\<close> pixel objects, and \<open>R\<close> and \<open>C\<close> are positive: a non-empty
  rectangular image of height \<open>R\<close> and width \<open>C\<close>.
\<close>

definition rect_image :: "heap \<Rightarrow> ref \<Rightarrow> nat \<Rightarrow> nat \<Rightarrow> bool" where
  "rect_image h img R C \<longleftrightarrow>
     is_list h img \<and> length (rows_of h img) = R \<and> 0 < R \<and> 0 < C \<and>
     (\<forall>r \<in> set (rows_of h img).
        is_list h r \<and> length (rows_of h r) = C \<and> (\<forall>p \<in> set (rows_of h r). is_pixel h p))"

section \<open>Notions used to state the properties\<close>

text \<open>\<^verbatim>\<open>type(v) == bool\<close>, the test of the three assertions.\<close>

definition is_bool :: "pyval \<Rightarrow> bool" where
  "is_bool v = (case v of VBool _ \<Rightarrow> True | _ \<Rightarrow> False)"

text \<open>
  What one pass of a loop body does to the store: \<open>map_pixel f p\<close> replaces the pixel at
  \<open>p\<close> by its image under \<open>f\<close>, \<open>rev_row r\<close> reverses the list at \<open>r\<close>.
\<close>

definition map_pixel :: "(pixel \<Rightarrow> pixel) \<Rightarrow> ref \<Rightarrow> heap \<Rightarrow> heap" where
  "map_pixel f p h = (case deref h p of Some (PyPixel px) \<Rightarrow> h[p := PyPixel (f px)] | _ \<Rightarrow> h)"

definition rev_row :: "ref \<Rightarrow> heap \<Rightarrow> heap" where
  "rev_row r h = (case deref h r of Some (PyList xs) \<Rightarrow> h[r := PyList (rev xs)] | _ \<Rightarrow> h)"

text \<open>
  \<open>same_lists h h'\<close>: the two stores have the same list objects, and pixels where the
  other has pixels. \<open>pixels_kept h h'\<close>: every pixel object of \<open>h\<close> is in \<open>h'\<close> with the
  same four channels.
\<close>

definition same_lists :: "heap \<Rightarrow> heap \<Rightarrow> bool" where
  "same_lists h h' \<longleftrightarrow> length h' = length h \<and>
     (\<forall>r < length h. case h ! r of PyList xs \<Rightarrow> h' ! r = PyList xs
                                 | PyPixel _ \<Rightarrow> (\<exists>px. h' ! r = PyPixel px))"

definition pixels_kept :: "heap \<Rightarrow> heap \<Rightarrow> bool" where
  "pixels_kept h h' \<longleftrightarrow> (\<forall>p px. deref h p = Some (PyPixel px) \<longrightarrow> deref h' p = Some (PyPixel px))"

text \<open>The pixel values an image holds, each as often as it occurs.\<close>

definition pixel_values :: "heap \<Rightarrow> ref \<Rightarrow> obj option multiset" where
  "pixel_values h img = mset (map (deref h) (concat (grid h img)))"

text \<open>
  What \<^verbatim>\<open>mono\<close> does to one pixel, and the range of channels on which the binary64
  model of the section on floating point is exact.
\<close>

definition mono_pixel :: "bool \<Rightarrow> pixel \<Rightarrow> pixel" where
  "mono_pixel sepia px =
     (let b = brightness px in
      px\<lparr>red := int_of_float b,
         green := (if sepia then int_of_float (fmul (fl (6 / 10)) b) else int_of_float b),
         blue := (if sepia then int_of_float (fmul (fl (4 / 10)) b) else int_of_float b)\<rparr>)"

definition channels_ok :: "heap \<Rightarrow> ref \<Rightarrow> bool" where
  "channels_ok h p = (case deref h p of
      Some (PyPixel px) \<Rightarrow> 0 \<le> red px \<and> red px \<le> 255 \<and> 0 \<le> green px \<and> green px \<le> 255
                          \<and> 0 \<le> blue px \<and> blue px \<le> 255
    | _ \<Rightarrow> False)"

text \<open>
  The brightness as the specification writes it, \<open>0.3 r + 0.6 g + 0.1 b\<close>, in exact
  arithmetic.
\<close>

definition exact_brightness :: "pixel \<Rightarrow> rat" where
  "exact_brightness px = 3 / 10 * of_int (red px) + 6 / 10 * of_int (green px) + 1 / 10 * of_int (blue px)"

text \<open>
  Tables as lists of rows: \<open>rectg R C G\<close> says that \<open>G\<close> has \<open>R\<close> rows of length \<open>C\<close>, and
  \<open>tgrid R C G\<close> is its transpose, row \<open>co\<close> of which is column \<open>co\<close> of \<open>G\<close>.
  \<open>transposed R C h img\<close> is the store \<^verbatim>\<open>transpose\<close> leaves: the columns of the image as
  \<open>C\<close> new list objects behind the objects of \<open>h\<close>, and the image holding them.
\<close>

definition rectg :: "nat \<Rightarrow> nat \<Rightarrow> 'a list list \<Rightarrow> bool" where
  "rectg R C G \<longleftrightarrow> length G = R \<and> (\<forall>row \<in> set G. length row = C)"

definition tgrid :: "nat \<Rightarrow> nat \<Rightarrow> 'a list list \<Rightarrow> 'a list list" where
  "tgrid R C G = map (\<lambda>co. map (\<lambda>ro. G ! ro ! co) [0..<R]) [0..<C]"

definition transposed :: "nat \<Rightarrow> nat \<Rightarrow> heap \<Rightarrow> ref \<Rightarrow> heap" where
  "transposed R C h img =
     (h @ map PyList (tgrid R C (grid h img)))[img := PyList [length h..<length h + C]]"

text \<open>
  The two compositions the specification gives for \<^verbatim>\<open>rotate\<close>: rotate left is
  transpose, then reverse the row order; rotate right is reverse the row order, then
  transpose.
\<close>

definition transpose_then_reverse :: "heap \<Rightarrow> ref \<Rightarrow> error \<times> heap + heap" where
  "transpose_then_reverse h img =
     and_then (transpose_image h img) (\<lambda>(h1, _). list_reverse h1 img)"

definition reverse_then_transpose :: "heap \<Rightarrow> ref \<Rightarrow> error \<times> heap + heap" where
  "reverse_then_transpose h img =
     and_then (list_reverse h img) (\<lambda>h1.
     and_then (transpose_image h1 img) (\<lambda>(h2, _). Inr h2))"

section \<open>Example stores\<close>

text \<open>
  \<open>img_2x3\<close>: the image at reference 0 has the rows 1 and 2, of three pixels each.
  \<open>img_1x1\<close>: one row with the one pixel \<open>(1, 1, 1, 255)\<close>. \<open>img_shared\<close>: the same list
  object is both rows of the image. \<open>repr_rgba\<close> is a stand-in for the pixel class's
  \<^verbatim>\<open>repr\<close>.
\<close>

definition img_2x3 :: heap where
  "img_2x3 = [PyList [1, 2], PyList [3, 4, 5], PyList [6, 7, 8],
          PyPixel \<lparr>red = 1, green = 1, blue = 1, alpha = 255\<rparr>,
          PyPixel \<lparr>red = 10, green = 20, blue = 30, alpha = 40\<rparr>,
          PyPixel \<lparr>red = 255, green = 255, blue = 255, alpha = 0\<rparr>,
          PyPixel \<lparr>red = 0, green = 3, blue = 2, alpha = 9\<rparr>,
          PyPixel \<lparr>red = 200, green = 100, blue = 50, alpha = 7\<rparr>,
          PyPixel \<lparr>red = 0, green = 0, blue = 1, alpha = 1\<rparr>]"

definition img_1x1 :: heap where
  "img_1x1 = [PyList [1], PyList [2], PyPixel \<lparr>red = 1, green = 1, blue = 1, alpha = 255\<rparr>]"

definition img_shared :: heap where
  "img_shared = [PyList [1, 1], PyList [2, 3],
          PyPixel \<lparr>red = 1, green = 2, blue = 3, alpha = 4\<rparr>,
          PyPixel \<lparr>red = 5, green = 6, blue = 7, alpha = 8\<rparr>]"

definition repr_rgba :: "obj \<Rightarrow> string" where
  "repr_rgba x = (case x of PyList _ \<Rightarrow> ''[...]''
     | PyPixel p \<Rightarrow> (if red p < 10 then ''(r<10)'' else ''(r>=10)''))"

section \<open>Properties\<close>

subsection \<open>Sequencing, loops and lookups\<close>

lemma and_then_simps [simp]:
  "and_then (Inr x) f = f x" "and_then (Inl e) f = Inl e"
  by (simp_all add: and_then_def)

lemma for_each_append:
  "for_each (xs @ ys) body s = and_then (for_each xs body s) (for_each ys body)"
  by (induction xs arbitrary: s) (auto split: sum.splits)

lemma for_each_fold:
  assumes "P s" and "\<And>i s. i \<in> set xs \<Longrightarrow> P s \<Longrightarrow> body i s = Inr (g i s) \<and> P (g i s)"
  shows "for_each xs body s = Inr (fold g xs s) \<and> P (fold g xs s)"
  using assms by (induction xs arbitrary: s) auto

lemma same_lists_refl: "same_lists h h"
  by (auto simp: same_lists_def split: obj.splits)

lemma same_lists_trans: "same_lists h h' \<Longrightarrow> same_lists h' h'' \<Longrightarrow> same_lists h h''"
  unfolding same_lists_def
  by (auto split: obj.splits) metis

lemma same_lists_map_pixel: "same_lists h (map_pixel f p h)"
  by (auto simp: same_lists_def map_pixel_def deref_def nth_list_update split: obj.splits option.splits)

lemma same_lists_deref_list:
  "same_lists h h' \<Longrightarrow> deref h r = Some (PyList xs) \<Longrightarrow> deref h' r = Some (PyList xs)"
  by (auto simp: same_lists_def deref_def split: if_splits obj.splits)

lemma same_lists_is_pixel:
  "same_lists h h' \<Longrightarrow> is_pixel h p \<Longrightarrow> is_pixel h' p"
  by (fastforce simp: same_lists_def is_pixel_def deref_def split: if_splits obj.splits option.splits)

lemma rows_of_eq: "deref h r = Some (PyList xs) \<Longrightarrow> rows_of h r = xs"
  by (simp add: rows_of_def)

lemma is_list_deref: "is_list h r \<Longrightarrow> deref h r = Some (PyList (rows_of h r))"
  by (auto simp: is_list_def rows_of_def split: option.splits obj.splits)

lemma is_pixel_deref: "is_pixel h p \<Longrightarrow> \<exists>px. deref h p = Some (PyPixel px)"
  by (auto simp: is_pixel_def split: option.splits obj.splits)

lemma len_list: "deref h r = Some (PyList xs) \<Longrightarrow> len h r = Inr (length xs)"
  by (simp add: len_def)

lemma getitem_list:
  "deref h r = Some (PyList xs) \<Longrightarrow> i < length xs \<Longrightarrow> getitem h r i = Inr (xs ! i)"
  by (simp add: getitem_def)

lemma setattr_pixel: "is_pixel h p \<Longrightarrow> setattr h p f = Inr (map_pixel f p h)"
  by (auto simp: setattr_def map_pixel_def is_pixel_def split: option.splits obj.splits)

lemma fold_concat: "fold f (concat xss) s = fold (fold f) xss s"
  by (induction xss arbitrary: s) auto

lemma fold_nth_upt: "fold (\<lambda>i. f (xs ! i)) [0..<length xs] s = fold f xs s"
proof -
  have "fold (\<lambda>i. f (xs ! i)) [0..<length xs] s = fold f (map ((!) xs) [0..<length xs]) s"
    by (simp add: fold_map comp_def)
  then show ?thesis by (simp add: map_nth)
qed

subsection \<open>Loops that visit every pixel\<close>

lemma same_lists_fold_map_pixel: "same_lists h s \<Longrightarrow> same_lists h (fold (map_pixel f) ps s)"
proof (induction ps arbitrary: s)
  case Nil
  then show ?case by simp
next
  case (Cons p ps)
  have "same_lists h (map_pixel f p s)"
    using same_lists_trans[OF Cons.prems same_lists_map_pixel] .
  then show ?case using Cons.IH by simp
qed

lemma rect_imageD:
  assumes "rect_image h img R C"
  shows "deref h img = Some (PyList (rows_of h img))" "length (rows_of h img) = R" "0 < R" "0 < C"
    "\<And>r. r \<in> set (rows_of h img) \<Longrightarrow> deref h r = Some (PyList (rows_of h r))"
    "\<And>r. r \<in> set (rows_of h img) \<Longrightarrow> length (rows_of h r) = C"
    "\<And>r p. r \<in> set (rows_of h img) \<Longrightarrow> p \<in> set (rows_of h r) \<Longrightarrow> is_pixel h p"
  using assms by (auto simp: rect_image_def is_list_deref)

lemma pixel_row_loop:
  assumes rect: "rect_image h img R C" and row: "row < R" and s: "same_lists h s"
    and body: "\<And>s p. same_lists h s \<Longrightarrow> is_pixel s p \<Longrightarrow> body p s = Inr (map_pixel f p s)"
  shows "for_each [0..<C] (\<lambda>col s.
            and_then (getitem s img row) (\<lambda>r.
            and_then (getitem s r col) (\<lambda>pixel. body pixel s))) s
         = Inr (fold (map_pixel f) (grid h img ! row) s)"
proof -
  let ?rows = "rows_of h img"
  let ?r = "?rows ! row"
  let ?cells = "rows_of h ?r"
  have rin: "?r \<in> set ?rows" using rect_imageD(2)[OF rect] row by simp
  have len: "length ?cells = C" using rect_imageD(6)[OF rect rin] .
  have step: "\<And>col s. col \<in> set [0..<C] \<Longrightarrow> same_lists h s \<Longrightarrow>
      and_then (getitem s img row) (\<lambda>r. and_then (getitem s r col) (\<lambda>pixel. body pixel s))
        = Inr (map_pixel f (?cells ! col) s) \<and> same_lists h (map_pixel f (?cells ! col) s)"
  proof -
    fix col s assume col: "col \<in> set [0..<C]" and sl: "same_lists h s"
    have g1: "getitem s img row = Inr ?r"
      using same_lists_deref_list[OF sl rect_imageD(1)[OF rect]] rect_imageD(2)[OF rect] row
      by (simp add: getitem_list)
    have g2: "getitem s ?r col = Inr (?cells ! col)"
      using same_lists_deref_list[OF sl rect_imageD(5)[OF rect rin]] len col
      by (simp add: getitem_list)
    have "?cells ! col \<in> set ?cells" using col len by simp
    then have px: "is_pixel s (?cells ! col)"
      using rect_imageD(7)[OF rect rin] same_lists_is_pixel[OF sl] by blast
    show "and_then (getitem s img row) (\<lambda>r. and_then (getitem s r col) (\<lambda>pixel. body pixel s))
        = Inr (map_pixel f (?cells ! col) s) \<and> same_lists h (map_pixel f (?cells ! col) s)"
      using g1 g2 body[OF sl px] same_lists_trans[OF sl same_lists_map_pixel] by simp
  qed
  have "for_each [0..<C] (\<lambda>col s.
            and_then (getitem s img row) (\<lambda>r.
            and_then (getitem s r col) (\<lambda>pixel. body pixel s))) s
        = Inr (fold (\<lambda>col. map_pixel f (?cells ! col)) [0..<C] s)"
    using for_each_fold[where P = "same_lists h" and g = "\<lambda>col. map_pixel f (?cells ! col)", OF s step]
    by blast
  also have "fold (\<lambda>col. map_pixel f (?cells ! col)) [0..<C] s = fold (map_pixel f) ?cells s"
    using fold_nth_upt[of "map_pixel f" ?cells s] len by simp
  also have "?cells = grid h img ! row"
    using rect_imageD(2)[OF rect] row by (simp add: grid_def)
  finally show ?thesis .
qed

lemma pixel_loops:
  assumes rect: "rect_image h img R C"
    and body: "\<And>s p. same_lists h s \<Longrightarrow> is_pixel s p \<Longrightarrow> body p s = Inr (map_pixel f p s)"
  shows "for_each [0..<R] (\<lambda>row.
           for_each [0..<C] (\<lambda>col s.
             and_then (getitem s img row) (\<lambda>r.
             and_then (getitem s r col) (\<lambda>pixel. body pixel s)))) h
         = Inr (fold (map_pixel f) (concat (grid h img)) h)"
proof -
  let ?G = "grid h img"
  have lenG: "length ?G = R" using rect_imageD(2)[OF rect] by (simp add: grid_def)
  have step: "\<And>row s. row \<in> set [0..<R] \<Longrightarrow> same_lists h s \<Longrightarrow>
      for_each [0..<C] (\<lambda>col s.
             and_then (getitem s img row) (\<lambda>r.
             and_then (getitem s r col) (\<lambda>pixel. body pixel s))) s
       = Inr (fold (map_pixel f) (?G ! row) s) \<and> same_lists h (fold (map_pixel f) (?G ! row) s)"
    using pixel_row_loop[OF rect _ _ body] same_lists_fold_map_pixel by simp
  have "for_each [0..<R] (\<lambda>row.
           for_each [0..<C] (\<lambda>col s.
             and_then (getitem s img row) (\<lambda>r.
             and_then (getitem s r col) (\<lambda>pixel. body pixel s)))) h
        = Inr (fold (\<lambda>row. fold (map_pixel f) (?G ! row)) [0..<R] h)"
    using for_each_fold[where P = "same_lists h" and g = "\<lambda>row. fold (map_pixel f) (?G ! row)",
        OF same_lists_refl step] by blast
  also have "fold (\<lambda>row. fold (map_pixel f) (?G ! row)) [0..<R] h = fold (fold (map_pixel f)) ?G h"
    using fold_nth_upt[of "fold (map_pixel f)" ?G h] lenG by simp
  finally show ?thesis by (simp add: fold_concat)
qed

lemma rect_image_prelude:
  assumes rect: "rect_image h img R C"
  shows "len h img = Inr R" "getitem h img 0 = Inr (rows_of h img ! 0)"
    "len h (rows_of h img ! 0) = Inr C"
proof -
  show "len h img = Inr R"
    using rect_imageD(1,2)[OF rect] by (simp add: len_list)
  show "getitem h img 0 = Inr (rows_of h img ! 0)"
    using rect_imageD(1,2,3)[OF rect] by (simp add: getitem_list)
  have "rows_of h img ! 0 \<in> set (rows_of h img)"
    using rect_imageD(2,3)[OF rect] by simp
  then show "len h (rows_of h img ! 0) = Inr C"
    using rect_imageD(5,6)[OF rect] by (simp add: len_list)
qed

lemma dered_eq:
  assumes rect: "rect_image h img R C"
  shows "dered h img = Inr (fold (map_pixel (\<lambda>px. px\<lparr>red := 0\<rparr>)) (concat (grid h img)) h, VBool True)"
  unfolding dered_def
  using rect_image_prelude[OF rect]
    pixel_loops[OF rect, where body = "\<lambda>pixel s. setattr s pixel (\<lambda>px. px\<lparr>red := 0\<rparr>)"
      and f = "\<lambda>px. px\<lparr>red := 0\<rparr>"]
  by (simp add: setattr_pixel)

lemma deref_map_pixel:
  "deref (map_pixel f q h) p =
     (if p = q then (case deref h p of Some (PyPixel px) \<Rightarrow> Some (PyPixel (f px)) | x \<Rightarrow> x)
      else deref h p)"
  by (auto simp: map_pixel_def deref_def split: option.splits obj.splits)

lemma deref_fold_map_pixel:
  assumes "distinct ps \<or> (\<forall>px. f (f px) = f px)" and "deref h p = Some (PyPixel px)"
  shows "deref (fold (map_pixel f) ps h) p = Some (PyPixel (if p \<in> set ps then f px else px))"
  using assms
proof (induction ps arbitrary: h px)
  case Nil
  then show ?case by simp
next
  case (Cons q ps)
  show ?case
  proof (cases "p = q")
    case True
    have d: "deref (map_pixel f q h) p = Some (PyPixel (f px))"
      using Cons.prems(2) True by (simp add: deref_map_pixel)
    have a: "distinct ps \<or> (\<forall>px. f (f px) = f px)" using Cons.prems(1) by auto
    show ?thesis using Cons.IH[OF a d] Cons.prems(1) True by auto
  next
    case False
    have d: "deref (map_pixel f q h) p = Some (PyPixel px)"
      using Cons.prems(2) False by (simp add: deref_map_pixel)
    have a: "distinct ps \<or> (\<forall>px. f (f px) = f px)" using Cons.prems(1) by auto
    show ?thesis using Cons.IH[OF a d] False by simp
  qed
qed

lemma same_lists_rect:
  assumes sl: "same_lists h h'" and rect: "rect_image h img R C"
  shows "rect_image h' img R C" "grid h' img = grid h img"
proof -
  have rows: "rows_of h' img = rows_of h img"
    using same_lists_deref_list[OF sl rect_imageD(1)[OF rect]] by (simp add: rows_of_eq)
  have cells: "\<And>r. r \<in> set (rows_of h img) \<Longrightarrow> rows_of h' r = rows_of h r"
    using same_lists_deref_list[OF sl rect_imageD(5)[OF rect]] by (simp add: rows_of_eq)
  have l1: "is_list h' img"
    using same_lists_deref_list[OF sl rect_imageD(1)[OF rect]] by (simp add: is_list_def)
  have l2: "\<And>r. r \<in> set (rows_of h img) \<Longrightarrow> is_list h' r"
    using same_lists_deref_list[OF sl rect_imageD(5)[OF rect]] by (simp add: is_list_def)
  show "rect_image h' img R C"
    unfolding rect_image_def rows
    using l1 l2 cells rect_imageD(2,3,4,6,7)[OF rect] same_lists_is_pixel[OF sl]
    by auto
  show "grid h' img = grid h img"
    using rows cells by (simp add: grid_def)
qed

lemma in_grid:
  "p \<in> set (concat (grid h img)) \<longleftrightarrow> (\<exists>r \<in> set (rows_of h img). p \<in> set (rows_of h r))"
  by (auto simp: grid_def)

subsection \<open>dered\<close>

text \<open>
  Claim C6. On a non-empty rectangular image \<^verbatim>\<open>dered\<close> returns \<^verbatim>\<open>True\<close>; afterwards every
  pixel of the image has red 0 and its green, blue and alpha as before, and no list
  object has changed, so the image has the same shape and the same pixel at every
  position.
\<close>

theorem dered_clears_red:
  assumes "rect_image h img R C"
  shows "\<exists>h'. dered h img = Inr (h', VBool True)
           \<and> rect_image h' img R C \<and> grid h' img = grid h img
           \<and> length h' = length h
           \<and> (\<forall>r < length h. \<forall>xs. h ! r = PyList xs \<longrightarrow> h' ! r = PyList xs)
           \<and> (\<forall>p \<in> set (concat (grid h img)).
                 \<exists>px. deref h p = Some (PyPixel px) \<and> deref h' p = Some (PyPixel (px\<lparr>red := 0\<rparr>)))"
proof -
  let ?f = "\<lambda>px::pixel. px\<lparr>red := 0\<rparr>"
  let ?h' = "fold (map_pixel ?f) (concat (grid h img)) h"
  have sl: "same_lists h ?h'"
    using same_lists_fold_map_pixel[OF same_lists_refl] .
  have run: "dered h img = Inr (?h', VBool True)"
    using dered_eq[OF assms] .
  have len: "length ?h' = length h" using sl by (simp add: same_lists_def)
  have lists: "\<forall>r < length h. \<forall>xs. h ! r = PyList xs \<longrightarrow> ?h' ! r = PyList xs"
    using sl by (auto simp: same_lists_def split: obj.splits)
  have px: "\<forall>p \<in> set (concat (grid h img)).
               \<exists>px. deref h p = Some (PyPixel px) \<and> deref ?h' p = Some (PyPixel (px\<lparr>red := 0\<rparr>))"
  proof
    fix p assume p: "p \<in> set (concat (grid h img))"
    then have "is_pixel h p"
      unfolding in_grid using rect_imageD(7)[OF assms] by blast
    then obtain px where d: "deref h p = Some (PyPixel px)"
      using is_pixel_deref by blast
    have "deref ?h' p = Some (PyPixel (if p \<in> set (concat (grid h img)) then ?f px else px))"
      using deref_fold_map_pixel[where f = ?f, OF _ d] by simp
    then show "\<exists>px. deref h p = Some (PyPixel px) \<and> deref ?h' p = Some (PyPixel (px\<lparr>red := 0\<rparr>))"
      using d p by simp
  qed
  show ?thesis
    using run same_lists_rect[OF sl assms] len lists px by blast
qed

lemma rect_img_2x3: "rect_image img_2x3 0 2 3"
  by (simp add: rect_image_def img_2x3_def is_list_def is_pixel_def rows_of_def deref_def)

theorem dered_clears_red_witness:
  "rect_image img_2x3 0 2 3 \<and>
   (\<exists>h'. dered img_2x3 0 = Inr (h', VBool True)
           \<and> rect_image h' 0 2 3 \<and> grid h' 0 = grid img_2x3 0
           \<and> length h' = length img_2x3
           \<and> (\<forall>r < length img_2x3. \<forall>xs. img_2x3 ! r = PyList xs \<longrightarrow> h' ! r = PyList xs)
           \<and> (\<forall>p \<in> set (concat (grid img_2x3 0)).
                 \<exists>px. deref img_2x3 p = Some (PyPixel px) \<and> deref h' p = Some (PyPixel (px\<lparr>red := 0\<rparr>))))"
  using dered_clears_red[OF rect_img_2x3] rect_img_2x3 by blast

subsection \<open>display\<close>

lemma for_each_total:
  assumes "\<And>i s. i \<in> set xs \<Longrightarrow> \<exists>s'. body i s = Inr s'"
  shows "\<exists>s'. for_each xs body s = Inr s'"
  using assms
proof (induction xs arbitrary: s)
  case Nil
  then show ?case by simp
next
  case (Cons x xs)
  obtain s1 where s1: "body x s = Inr s1" using Cons.prems[of x s] by auto
  obtain s2 where "for_each xs body s1 = Inr s2" using Cons.IH[of s1] Cons.prems by auto
  then show ?case using s1 by simp
qed

lemma items_list: "deref h r = Some (PyList xs) \<Longrightarrow> items h r = Inr xs"
  by (simp add: items_def)

lemma repr_at_pixel: "is_pixel h p \<Longrightarrow> \<exists>t. repr_at repr h p = Inr t"
  by (auto simp: repr_at_def is_pixel_def split: option.splits)

lemma display_maxsize_loop:
  assumes rect: "rect_image h img R C"
  shows "\<exists>m. for_each (rows_of h img) (\<lambda>row maxsize.
                 and_then (items h row) (\<lambda>pixels.
                 for_each pixels (\<lambda>pixel maxsize.
                   and_then (repr_at repr h pixel) (\<lambda>text.
                   Inr (if length text > maxsize then length text else maxsize))) maxsize))
               (0::nat) = Inr m"
proof (rule for_each_total)
  fix row and s :: nat
  assume row: "row \<in> set (rows_of h img)"
  have it: "items h row = Inr (rows_of h row)"
    using rect_imageD(5)[OF rect row] by (rule items_list)
  have "\<exists>s'. for_each (rows_of h row) (\<lambda>pixel maxsize.
                   and_then (repr_at repr h pixel) (\<lambda>text.
                   Inr (if length text > maxsize then length text else maxsize))) s = Inr s'"
  proof (rule for_each_total)
    fix p and s :: nat
    assume "p \<in> set (rows_of h row)"
    then obtain t where "repr_at repr h p = Inr t"
      using rect_imageD(7)[OF rect row] repr_at_pixel by blast
    then show "\<exists>s'. and_then (repr_at repr h p) (\<lambda>text.
                   Inr (if length text > s then length text else s)) = Inr s'"
      by simp
  qed
  then show "\<exists>s'. and_then (items h row) (\<lambda>pixels.
                 for_each pixels (\<lambda>pixel maxsize.
                   and_then (repr_at repr h pixel) (\<lambda>text.
                   Inr (if length text > maxsize then length text else maxsize))) s) = Inr s'"
    using it by simp
qed

lemma display_print_loop:
  assumes rect: "rect_image h img R C"
  shows "\<exists>out. for_each [0..<R] (\<lambda>pos1 out.
                 and_then (getitem h img pos1) (\<lambda>row.
                 for_each [0..<C] (\<lambda>pos2 out.
                   and_then (getitem h row pos2) (\<lambda>pixel.
                   and_then (repr_at repr h pixel) (\<lambda>middle.
                   let padding = maxsize - length middle;
                       prefix = (if pos1 = 0 \<and> pos2 = 0 then ''[  [  ''
                                 else if pos2 = 0 then ''   [  '' else ''      '');
                       suffix = (if Suc pos1 = R \<and> Suc pos2 = C
                                   then replicate padding CHR '' '' @ '' ]  ]''
                                 else if Suc pos2 = C
                                   then replicate padding CHR '' '' @ '' ],''
                                 else '','')
                   in Inr (out @ [prefix @ middle @ suffix])))) out))
               [''''] = Inr out"
proof (rule for_each_total)
  fix pos1 and s :: "string list"
  assume "pos1 \<in> set [0..<R]"
  then have pos1: "pos1 < length (rows_of h img)" using rect_imageD(2)[OF rect] by simp
  let ?row = "rows_of h img ! pos1"
  have rin: "?row \<in> set (rows_of h img)" using pos1 by simp
  have g1: "getitem h img pos1 = Inr ?row"
    using rect_imageD(1)[OF rect] pos1 by (simp add: getitem_list)
  have "\<exists>s'. for_each [0..<C] (\<lambda>pos2 out.
                   and_then (getitem h ?row pos2) (\<lambda>pixel.
                   and_then (repr_at repr h pixel) (\<lambda>middle.
                   let padding = maxsize - length middle;
                       prefix = (if pos1 = 0 \<and> pos2 = 0 then ''[  [  ''
                                 else if pos2 = 0 then ''   [  '' else ''      '');
                       suffix = (if Suc pos1 = R \<and> Suc pos2 = C
                                   then replicate padding CHR '' '' @ '' ]  ]''
                                 else if Suc pos2 = C
                                   then replicate padding CHR '' '' @ '' ],''
                                 else '','')
                   in Inr (out @ [prefix @ middle @ suffix])))) s = Inr s'"
  proof (rule for_each_total)
    fix pos2 and s :: "string list"
    assume "pos2 \<in> set [0..<C]"
    then have pos2: "pos2 < length (rows_of h ?row)" using rect_imageD(6)[OF rect rin] by simp
    have g2: "getitem h ?row pos2 = Inr (rows_of h ?row ! pos2)"
      using rect_imageD(5)[OF rect rin] pos2 by (simp add: getitem_list)
    have "is_pixel h (rows_of h ?row ! pos2)"
      using rect_imageD(7)[OF rect rin] pos2 by simp
    then obtain t where "repr_at repr h (rows_of h ?row ! pos2) = Inr t"
      using repr_at_pixel by blast
    then show "\<exists>s'. and_then (getitem h ?row pos2) (\<lambda>pixel.
                   and_then (repr_at repr h pixel) (\<lambda>middle.
                   let padding = maxsize - length middle;
                       prefix = (if pos1 = 0 \<and> pos2 = 0 then ''[  [  ''
                                 else if pos2 = 0 then ''   [  '' else ''      '');
                       suffix = (if Suc pos1 = R \<and> Suc pos2 = C
                                   then replicate padding CHR '' '' @ '' ]  ]''
                                 else if Suc pos2 = C
                                   then replicate padding CHR '' '' @ '' ],''
                                 else '','')
                   in Inr (s @ [prefix @ middle @ suffix]))) = Inr s'"
      using g2 by (simp add: Let_def)
  qed
  then show "\<exists>s'. and_then (getitem h img pos1) (\<lambda>row.
                 for_each [0..<C] (\<lambda>pos2 out.
                   and_then (getitem h row pos2) (\<lambda>pixel.
                   and_then (repr_at repr h pixel) (\<lambda>middle.
                   let padding = maxsize - length middle;
                       prefix = (if pos1 = 0 \<and> pos2 = 0 then ''[  [  ''
                                 else if pos2 = 0 then ''   [  '' else ''      '');
                       suffix = (if Suc pos1 = R \<and> Suc pos2 = C
                                   then replicate padding CHR '' '' @ '' ]  ]''
                                 else if Suc pos2 = C
                                   then replicate padding CHR '' '' @ '' ],''
                                 else '','')
                   in Inr (out @ [prefix @ middle @ suffix])))) s) = Inr s'"
    using g1 by simp
qed

text \<open>
  Claim C5. On a non-empty rectangular image \<^verbatim>\<open>display\<close> leaves the whole store as it
  was, so no pixel and no list changes; the value it returns is \<^verbatim>\<open>None\<close>, the value of
  the bare \<^verbatim>\<open>return\<close>, and not \<^verbatim>\<open>False\<close>.
\<close>

theorem display_returns_None:
  assumes rect: "rect_image h img R C"
  shows "\<exists>out. display repr h img = Inr (h, out, VNone)"
proof -
  obtain m where m: "for_each (rows_of h img) (\<lambda>row maxsize.
                 and_then (items h row) (\<lambda>pixels.
                 for_each pixels (\<lambda>pixel maxsize.
                   and_then (repr_at repr h pixel) (\<lambda>text.
                   Inr (if length text > maxsize then length text else maxsize))) maxsize))
               (0::nat) = Inr m"
    using display_maxsize_loop[OF rect] by blast
  obtain out where out: "for_each [0..<R] (\<lambda>pos1 out.
                 and_then (getitem h img pos1) (\<lambda>row.
                 for_each [0..<C] (\<lambda>pos2 out.
                   and_then (getitem h row pos2) (\<lambda>pixel.
                   and_then (repr_at repr h pixel) (\<lambda>middle.
                   let padding = m - length middle;
                       prefix = (if pos1 = 0 \<and> pos2 = 0 then ''[  [  ''
                                 else if pos2 = 0 then ''   [  '' else ''      '');
                       suffix = (if Suc pos1 = R \<and> Suc pos2 = C
                                   then replicate padding CHR '' '' @ '' ]  ]''
                                 else if Suc pos2 = C
                                   then replicate padding CHR '' '' @ '' ],''
                                 else '','')
                   in Inr (out @ [prefix @ middle @ suffix])))) out))
               [''''] = Inr out"
    using display_print_loop[OF rect, where maxsize = m] by blast
  have "display repr h img = Inr (h, out, VNone)"
    unfolding display_def
    using rect_image_prelude[OF rect] items_list[OF rect_imageD(1)[OF rect]] m out
    by simp
  then show ?thesis by blast
qed

theorem display_returns_None_witness:
  "rect_image img_2x3 0 2 3 \<and> (\<exists>out. display repr_rgba img_2x3 0 = Inr (img_2x3, out, VNone))"
  using display_returns_None[OF rect_img_2x3] rect_img_2x3 by blast

subsection \<open>Flags that are not booleans\<close>

text \<open>
  Claim C7. With a flag that is not a \<^verbatim>\<open>bool\<close>, \<^verbatim>\<open>mono\<close>, \<^verbatim>\<open>flip\<close> and \<^verbatim>\<open>rotate\<close> raise
  \<^verbatim>\<open>AssertionError\<close>, and the store the exception leaves behind is the store of the
  call: nothing has been changed.
\<close>

theorem bad_flag_aborts:
  assumes "\<not> is_bool v"
  shows "mono_image h img v = Inl (AssertionError, h) \<and> flip h img v = Inl (AssertionError, h)
         \<and> rotate_image h img v = Inl (AssertionError, h)"
  using assms by (cases v) (simp_all add: mono_image_def flip_def rotate_image_def is_bool_def)

theorem bad_flag_aborts_witness:
  "\<not> is_bool (VInt 1) \<and> mono_image img_2x3 0 (VInt 1) = Inl (AssertionError, img_2x3)
    \<and> flip img_2x3 0 (VInt 1) = Inl (AssertionError, img_2x3)
    \<and> rotate_image img_2x3 0 (VInt 1) = Inl (AssertionError, img_2x3)"
  using bad_flag_aborts[of "VInt 1" img_2x3 0] by (simp add: is_bool_def)

subsection \<open>mono\<close>

lemma setattr_deref:
  "deref h p = Some (PyPixel px) \<Longrightarrow> setattr h p f = Inr (h[p := PyPixel (f px)])"
  by (simp add: setattr_def)

lemma deref_update_same:
  "deref h p = Some x \<Longrightarrow> deref (h[p := y]) p = Some y"
  by (auto simp: deref_def split: if_splits)

lemma mono_body:
  assumes "is_pixel s p"
  shows "and_then (getattrs s p) (\<lambda>px.
            let b = brightness px in
            and_then (if \<not> sepia then
                        and_then (setattr s p (\<lambda>px. px\<lparr>red := int_of_float b\<rparr>)) (\<lambda>h.
                        and_then (setattr h p (\<lambda>px. px\<lparr>green := int_of_float b\<rparr>)) (\<lambda>h.
                        setattr h p (\<lambda>px. px\<lparr>blue := int_of_float b\<rparr>)))
                      else Inr s) (\<lambda>h.
            if sepia then
              and_then (setattr h p (\<lambda>px. px\<lparr>red := int_of_float b\<rparr>)) (\<lambda>h.
              and_then (setattr h p
                          (\<lambda>px. px\<lparr>green := int_of_float (fmul (fl (6 / 10)) b)\<rparr>)) (\<lambda>h.
              setattr h p (\<lambda>px. px\<lparr>blue := int_of_float (fmul (fl (4 / 10)) b)\<rparr>)))
            else Inr h))
         = Inr (map_pixel (mono_pixel sepia) p s)"
proof -
  obtain px where d: "deref s p = Some (PyPixel px)"
    using assms is_pixel_deref by blast
  have g: "getattrs s p = Inr px" using d by (simp add: getattrs_def)
  have m: "map_pixel (mono_pixel sepia) p s = s[p := PyPixel (mono_pixel sepia px)]"
    using d by (simp add: map_pixel_def)
  show ?thesis
    unfolding g m
    by (cases sepia)
       (simp_all add: Let_def setattr_deref[OF d] setattr_deref[OF deref_update_same[OF d]]
          mono_pixel_def)
qed

lemma mono_eq:
  assumes rect: "rect_image h img R C"
  shows "mono_image h img (VBool sepia)
         = Inr (fold (map_pixel (mono_pixel sepia)) (concat (grid h img)) h, VBool True)"
  unfolding mono_image_def
  using rect_image_prelude[OF rect]
    pixel_loops[OF rect, where f = "mono_pixel sepia" and body = "\<lambda>pixel h.
       and_then (getattrs h pixel) (\<lambda>px.
            let b = brightness px in
            and_then (if \<not> sepia then
                        and_then (setattr h pixel (\<lambda>px. px\<lparr>red := int_of_float b\<rparr>)) (\<lambda>h.
                        and_then (setattr h pixel (\<lambda>px. px\<lparr>green := int_of_float b\<rparr>)) (\<lambda>h.
                        setattr h pixel (\<lambda>px. px\<lparr>blue := int_of_float b\<rparr>)))
                      else Inr h) (\<lambda>h.
            if sepia then
              and_then (setattr h pixel (\<lambda>px. px\<lparr>red := int_of_float b\<rparr>)) (\<lambda>h.
              and_then (setattr h pixel
                          (\<lambda>px. px\<lparr>green := int_of_float (fmul (fl (6 / 10)) b)\<rparr>)) (\<lambda>h.
              setattr h pixel (\<lambda>px. px\<lparr>blue := int_of_float (fmul (fl (4 / 10)) b)\<rparr>)))
            else Inr h))", OF mono_body]
  by simp

text \<open>
  Claim C2, as the code has it. On a non-empty rectangular image whose pixels are
  distinct objects with channels between 0 and 255, \<^verbatim>\<open>mono\<close> returns \<^verbatim>\<open>True\<close> and
  leaves the shape alone; every pixel gets red \<open>int(B)\<close>, where \<open>B\<close> is the binary64
  value of \<^verbatim>\<open>red * 0.3 + green * 0.6 + blue * 0.1\<close> on the channels before the call,
  green and blue \<open>int(B)\<close> too in greyscale mode and \<open>int(0.6 * B)\<close>, \<open>int(0.4 * B)\<close>
  in sepia mode, each product rounded to binary64; alpha stays.
\<close>

theorem mono_float_brightness:
  assumes rect: "rect_image h img R C"
    and dist: "distinct (concat (grid h img))"
    and chan: "list_all (channels_ok h) (concat (grid h img))"
  shows "\<exists>h'. mono_image h img (VBool sepia) = Inr (h', VBool True)
           \<and> rect_image h' img R C \<and> grid h' img = grid h img
           \<and> (\<forall>p \<in> set (concat (grid h img)).
                 \<exists>px px'. deref h p = Some (PyPixel px) \<and> deref h' p = Some (PyPixel px')
                   \<and> red px' = int_of_float (brightness px)
                   \<and> green px' = (if sepia then int_of_float (fmul (fl (6 / 10)) (brightness px))
                                   else int_of_float (brightness px))
                   \<and> blue px' = (if sepia then int_of_float (fmul (fl (4 / 10)) (brightness px))
                                  else int_of_float (brightness px))
                   \<and> alpha px' = alpha px)"
proof -
  let ?f = "mono_pixel sepia"
  let ?h' = "fold (map_pixel ?f) (concat (grid h img)) h"
  have sl: "same_lists h ?h'"
    using same_lists_fold_map_pixel[OF same_lists_refl] .
  have run: "mono_image h img (VBool sepia) = Inr (?h', VBool True)"
    using mono_eq[OF rect] .
  have px: "\<forall>p \<in> set (concat (grid h img)).
                 \<exists>px px'. deref h p = Some (PyPixel px) \<and> deref ?h' p = Some (PyPixel px')
                   \<and> red px' = int_of_float (brightness px)
                   \<and> green px' = (if sepia then int_of_float (fmul (fl (6 / 10)) (brightness px))
                                   else int_of_float (brightness px))
                   \<and> blue px' = (if sepia then int_of_float (fmul (fl (4 / 10)) (brightness px))
                                  else int_of_float (brightness px))
                   \<and> alpha px' = alpha px"
  proof
    fix p assume p: "p \<in> set (concat (grid h img))"
    then have "is_pixel h p"
      unfolding in_grid using rect_imageD(7)[OF rect] by blast
    then obtain px where d: "deref h p = Some (PyPixel px)"
      using is_pixel_deref by blast
    have "deref ?h' p = Some (PyPixel (if p \<in> set (concat (grid h img)) then ?f px else px))"
      using deref_fold_map_pixel[where f = ?f, OF _ d] dist by simp
    then have d': "deref ?h' p = Some (PyPixel (?f px))" using p by simp
    show "\<exists>px px'. deref h p = Some (PyPixel px) \<and> deref ?h' p = Some (PyPixel px')
                   \<and> red px' = int_of_float (brightness px)
                   \<and> green px' = (if sepia then int_of_float (fmul (fl (6 / 10)) (brightness px))
                                   else int_of_float (brightness px))
                   \<and> blue px' = (if sepia then int_of_float (fmul (fl (4 / 10)) (brightness px))
                                  else int_of_float (brightness px))
                   \<and> alpha px' = alpha px"
      using d d' by (simp add: mono_pixel_def Let_def)
  qed
  show ?thesis
    using run same_lists_rect[OF sl rect] px by blast
qed

lemma distinct_img_2x3: "distinct (concat (grid img_2x3 0))"
  by (simp add: grid_def rows_of_def deref_def img_2x3_def)

lemma channels_img_2x3: "list_all (channels_ok img_2x3) (concat (grid img_2x3 0))"
  by (simp add: grid_def rows_of_def deref_def img_2x3_def channels_ok_def)

theorem mono_float_brightness_witness:
  "rect_image img_2x3 0 2 3 \<and> distinct (concat (grid img_2x3 0))
   \<and> list_all (channels_ok img_2x3) (concat (grid img_2x3 0))
   \<and> (\<exists>h'. mono_image img_2x3 0 (VBool True) = Inr (h', VBool True)
           \<and> rect_image h' 0 2 3 \<and> grid h' 0 = grid img_2x3 0
           \<and> (\<forall>p \<in> set (concat (grid img_2x3 0)).
                 \<exists>px px'. deref img_2x3 p = Some (PyPixel px) \<and> deref h' p = Some (PyPixel px')
                   \<and> red px' = int_of_float (brightness px)
                   \<and> green px' = (if True then int_of_float (fmul (fl (6 / 10)) (brightness px))
                                   else int_of_float (brightness px))
                   \<and> blue px' = (if True then int_of_float (fmul (fl (4 / 10)) (brightness px))
                                  else int_of_float (brightness px))
                   \<and> alpha px' = alpha px))"
  using mono_float_brightness[OF rect_img_2x3 distinct_img_2x3 channels_img_2x3, of True]
    rect_img_2x3 distinct_img_2x3 channels_img_2x3 by blast

lemma brightness_111_truncates: "int_of_float (brightness \<lparr>red = 1, green = 1, blue = 1, alpha = 255\<rparr>) = 0"
  by code_simp

lemma rect_img_1x1: "rect_image img_1x1 0 1 1"
  by (simp add: rect_image_def img_1x1_def is_list_def is_pixel_def rows_of_def deref_def)

text \<open>
  The floor of the exact value \<open>0.3 r + 0.6 g + 0.1 b\<close> is not what \<^verbatim>\<open>mono\<close> stores: on
  the pixel \<open>(1, 1, 1)\<close> the three binary64 products add up to \<open>1 - 2\<^sup>-\<^sup>5\<^sup>3\<close>, so the
  channels become 0, while the exact value is 1.
\<close>

theorem mono_exact_floor_counterexample:
  "rect_image img_1x1 0 1 1 \<and>
   mono_image img_1x1 0 (VBool False)
     = Inr ([PyList [1], PyList [2], PyPixel \<lparr>red = 0, green = 0, blue = 0, alpha = 255\<rparr>], VBool True) \<and>
   \<lfloor>exact_brightness \<lparr>red = 1, green = 1, blue = 1, alpha = 255\<rparr>\<rfloor> = 1"
proof -
  have "fold (map_pixel (mono_pixel False)) (concat (grid img_1x1 0)) img_1x1
        = [PyList [1], PyList [2], PyPixel \<lparr>red = 0, green = 0, blue = 0, alpha = 255\<rparr>]"
    by (simp add: grid_def rows_of_def deref_def img_1x1_def map_pixel_def mono_pixel_def brightness_111_truncates)
  then show ?thesis
    using mono_eq[OF rect_img_1x1, of False] rect_img_1x1
    by (simp add: exact_brightness_def)
qed

subsection \<open>flip\<close>

lemma list_reverse_list: "is_list h r \<Longrightarrow> list_reverse h r = Inr (rev_row r h)"
  by (auto simp: list_reverse_def rev_row_def is_list_def split: option.splits obj.splits)

lemma deref_rev_row:
  "deref (rev_row r h) x =
     (if x = r then (case deref h x of Some (PyList xs) \<Rightarrow> Some (PyList (rev xs)) | y \<Rightarrow> y)
      else deref h x)"
  by (auto simp: rev_row_def deref_def split: option.splits obj.splits)

lemma length_rev_row [simp]: "length (rev_row r h) = length h"
  by (simp add: rev_row_def split: option.splits obj.splits)

lemma is_list_rev_row: "is_list (rev_row r h) x = is_list h x"
  by (auto simp: is_list_def deref_rev_row split: option.splits obj.splits)

lemma rows_of_rev_row:
  "rows_of (rev_row r h) x = (if x = r then rev (rows_of h x) else rows_of h x)"
  by (auto simp: rows_of_def deref_rev_row split: option.splits obj.splits)

lemma is_pixel_rev_row: "is_pixel (rev_row r h) x = is_pixel h x"
  by (auto simp: is_pixel_def deref_rev_row split: option.splits obj.splits)

lemma deref_pixel_rev_row:
  "deref h p = Some (PyPixel px) \<Longrightarrow> deref (rev_row r h) p = Some (PyPixel px)"
  by (auto simp: deref_rev_row)

lemma img_not_row:
  assumes rect: "rect_image h img R C"
  shows "img \<notin> set (rows_of h img)"
proof
  assume a: "img \<in> set (rows_of h img)"
  have r0: "rows_of h img ! 0 \<in> set (rows_of h img)"
    using rect_imageD(2,3)[OF rect] by simp
  have "is_pixel h (rows_of h img ! 0)"
    using rect_imageD(7)[OF rect a r0] .
  moreover have "is_list h (rows_of h img ! 0)"
    using rect_imageD(5)[OF rect r0] by (simp add: is_list_def)
  ultimately show False
    by (auto simp: is_pixel_def is_list_def split: option.splits obj.splits)
qed

lemma flip_rows_loop:
  assumes rect: "rect_image h img R C"
  shows "for_each [0..<R] (\<lambda>col h. and_then (getitem h img col) (\<lambda>r. list_reverse h r)) h
         = Inr (fold rev_row (rows_of h img) h)"
proof -
  let ?rows = "rows_of h img"
  let ?P = "\<lambda>s. deref s img = Some (PyList ?rows) \<and> (\<forall>r \<in> set ?rows. is_list s r)"
  have P0: "?P h"
    using rect_imageD(1,5)[OF rect] by (auto simp: is_list_def)
  have step: "\<And>col s. col \<in> set [0..<R] \<Longrightarrow> ?P s \<Longrightarrow>
      and_then (getitem s img col) (\<lambda>r. list_reverse s r) = Inr (rev_row (?rows ! col) s)
      \<and> ?P (rev_row (?rows ! col) s)"
  proof -
    fix col s assume col: "col \<in> set [0..<R]" and P: "?P s"
    have c: "col < length ?rows" using col rect_imageD(2)[OF rect] by simp
    then have rin: "?rows ! col \<in> set ?rows" by simp
    have ne: "img \<noteq> ?rows ! col" using img_not_row[OF rect] rin by auto
    have g: "getitem s img col = Inr (?rows ! col)"
      using P c by (simp add: getitem_list)
    have l: "list_reverse s (?rows ! col) = Inr (rev_row (?rows ! col) s)"
      using P rin by (simp add: list_reverse_list)
    have "?P (rev_row (?rows ! col) s)"
      using P ne by (simp add: deref_rev_row is_list_rev_row)
    then show "and_then (getitem s img col) (\<lambda>r. list_reverse s r) = Inr (rev_row (?rows ! col) s)
      \<and> ?P (rev_row (?rows ! col) s)"
      using g l by simp
  qed
  have "for_each [0..<R] (\<lambda>col h. and_then (getitem h img col) (\<lambda>r. list_reverse h r)) h
        = Inr (fold (\<lambda>col. rev_row (?rows ! col)) [0..<R] h)"
    using for_each_fold[where P = ?P and g = "\<lambda>col. rev_row (?rows ! col)", OF P0 step] by blast
  also have "fold (\<lambda>col. rev_row (?rows ! col)) [0..<R] h = fold rev_row ?rows h"
    using fold_nth_upt[of rev_row ?rows h] rect_imageD(2)[OF rect] by simp
  finally show ?thesis .
qed

lemma flip_horizontal_eq:
  assumes rect: "rect_image h img R C"
  shows "flip h img (VBool False) = Inr (fold rev_row (rows_of h img) h, VBool True)"
  unfolding flip_def
  using rect_image_prelude[OF rect] flip_rows_loop[OF rect] by simp

lemma flip_vertical_eq:
  assumes rect: "rect_image h img R C"
  shows "flip h img (VBool True) = Inr (rev_row img h, VBool True)"
  unfolding flip_def
  using rect_image_prelude[OF rect] rect_imageD(1)[OF rect]
  by (simp add: list_reverse_list is_list_def)

lemma deref_pixel_fold_rev_row:
  "deref h p = Some (PyPixel px) \<Longrightarrow> deref (fold rev_row rs h) p = Some (PyPixel px)"
  by (induction rs arbitrary: h) (simp_all add: deref_pixel_rev_row)

lemma rows_of_fold_rev_row_notin:
  "x \<notin> set rs \<Longrightarrow> rows_of (fold rev_row rs h) x = rows_of h x"
  by (induction rs arbitrary: h) (auto simp: rows_of_rev_row)

lemma rows_of_fold_rev_row_distinct:
  "distinct rs \<Longrightarrow> x \<in> set rs \<Longrightarrow> rows_of (fold rev_row rs h) x = rev (rows_of h x)"
  by (induction rs arbitrary: h) (auto simp: rows_of_rev_row rows_of_fold_rev_row_notin)

lemma mset_rows_of_fold_rev_row:
  "mset (rows_of (fold rev_row rs h) x) = mset (rows_of h x)"
  by (induction rs arbitrary: h) (auto simp: rows_of_rev_row)

lemma rows_of_img_fold_rev_row:
  assumes rect: "rect_image h img R C"
  shows "rows_of (fold rev_row (rows_of h img) h) img = rows_of h img"
  using rows_of_fold_rev_row_notin[OF img_not_row[OF rect]] .

lemma rows_of_rev_row_img:
  assumes rect: "rect_image h img R C"
  shows "rows_of (rev_row img h) img = rev (rows_of h img)"
    "\<And>r. r \<in> set (rows_of h img) \<Longrightarrow> rows_of (rev_row img h) r = rows_of h r"
  using img_not_row[OF rect] by (auto simp: rows_of_rev_row)

text \<open>
  Claim C4, as the code has it. On a non-empty rectangular image \<^verbatim>\<open>flip\<close> returns
  \<^verbatim>\<open>True\<close>. With \<^verbatim>\<open>vertical=True\<close> the image holds its rows in reverse order and every
  row keeps its pixels in their order. With \<^verbatim>\<open>vertical=False\<close> the image keeps its rows
  in their order, and when the rows are distinct list objects every row holds its pixels
  in reverse order (the loop reverses a list object once for each time it occurs in the
  image).
\<close>

theorem flip_reverses:
  assumes rect: "rect_image h img R C"
  shows "(\<exists>h'. flip h img (VBool False) = Inr (h', VBool True)
            \<and> rows_of h' img = rows_of h img
            \<and> (distinct (rows_of h img) \<longrightarrow>
                  (\<forall>r \<in> set (rows_of h img). rows_of h' r = rev (rows_of h r))
                  \<and> grid h' img = map rev (grid h img)))
       \<and> (\<exists>h'. flip h img (VBool True) = Inr (h', VBool True)
            \<and> rows_of h' img = rev (rows_of h img)
            \<and> (\<forall>r \<in> set (rows_of h img). rows_of h' r = rows_of h r)
            \<and> grid h' img = rev (grid h img))"
proof
  let ?h' = "fold rev_row (rows_of h img) h"
  have a: "rows_of ?h' img = rows_of h img"
    using rows_of_img_fold_rev_row[OF rect] .
  have bc: "(\<forall>r \<in> set (rows_of h img). rows_of ?h' r = rev (rows_of h r))
            \<and> grid ?h' img = map rev (grid h img)"
    if dist: "distinct (rows_of h img)"
  proof -
    have b: "\<forall>r \<in> set (rows_of h img). rows_of ?h' r = rev (rows_of h r)"
      using rows_of_fold_rev_row_distinct[OF dist] by blast
    then show ?thesis using a by (simp add: grid_def)
  qed
  show "\<exists>h'. flip h img (VBool False) = Inr (h', VBool True)
            \<and> rows_of h' img = rows_of h img
            \<and> (distinct (rows_of h img) \<longrightarrow>
                  (\<forall>r \<in> set (rows_of h img). rows_of h' r = rev (rows_of h r))
                  \<and> grid h' img = map rev (grid h img))"
    using flip_horizontal_eq[OF rect] a bc by blast
next
  let ?h' = "rev_row img h"
  have a: "rows_of ?h' img = rev (rows_of h img)"
    using rows_of_rev_row_img(1)[OF rect] .
  have b: "\<forall>r \<in> set (rows_of h img). rows_of ?h' r = rows_of h r"
    using rows_of_rev_row_img(2)[OF rect] by blast
  have c: "grid ?h' img = rev (grid h img)"
    using a b by (simp add: grid_def rev_map)
  show "\<exists>h'. flip h img (VBool True) = Inr (h', VBool True)
            \<and> rows_of h' img = rev (rows_of h img)
            \<and> (\<forall>r \<in> set (rows_of h img). rows_of h' r = rows_of h r)
            \<and> grid h' img = rev (grid h img)"
    using flip_vertical_eq[OF rect] a b c by blast
qed

lemma distinct_rows_img_2x3: "distinct (rows_of img_2x3 0)"
  by (simp add: rows_of_def deref_def img_2x3_def)

theorem flip_reverses_witness:
  "rect_image img_2x3 0 2 3 \<and> distinct (rows_of img_2x3 0)
   \<and> (\<exists>h'. flip img_2x3 0 (VBool False) = Inr (h', VBool True)
            \<and> rows_of h' 0 = rows_of img_2x3 0
            \<and> (\<forall>r \<in> set (rows_of img_2x3 0). rows_of h' r = rev (rows_of img_2x3 r))
            \<and> grid h' 0 = map rev (grid img_2x3 0))
   \<and> (\<exists>h'. flip img_2x3 0 (VBool True) = Inr (h', VBool True)
            \<and> rows_of h' 0 = rev (rows_of img_2x3 0)
            \<and> (\<forall>r \<in> set (rows_of img_2x3 0). rows_of h' r = rows_of img_2x3 r)
            \<and> grid h' 0 = rev (grid img_2x3 0))"
  using flip_reverses[OF rect_img_2x3] rect_img_2x3 distinct_rows_img_2x3
  by blast

text \<open>
  Claim C4 as it is written, for every non-empty rectangular image, fails where a row
  occurs twice: in \<open>img_shared\<close> the one list \<open>[2, 3]\<close> is both rows of the image, the
  loop of the horizontal flip reverses it twice, and the call returns \<^verbatim>\<open>True\<close> with the
  store as it was, so both rows still read \<open>[2, 3]\<close> and not \<open>[3, 2]\<close>.
\<close>

theorem flip_shared_row_counterexample:
  "rect_image img_shared 0 2 2
   \<and> flip img_shared 0 (VBool False) = Inr (img_shared, VBool True)
   \<and> grid img_shared 0 = [[2, 3], [2, 3]]
   \<and> map rev (grid img_shared 0) = [[3, 2], [3, 2]]"
  by (simp add: rect_image_def flip_def img_shared_def is_list_def is_pixel_def rows_of_def
      grid_def deref_def len_def getitem_def list_reverse_def upt_rec)

subsection \<open>transpose: the loops\<close>

lemma deref_append_left: "deref b r = Some x \<Longrightarrow> deref (b @ ys) r = Some x"
  by (auto simp: deref_def nth_append split: if_splits)

lemma deref_append_last: "deref (b @ [x]) (length b) = Some x"
  by (simp add: deref_def)

lemma list_append_list:
  "deref h r = Some (PyList xs) \<Longrightarrow> list_append h r x = Inr (h[r := PyList (xs @ [x])])"
  by (simp add: list_append_def)

lemma list_append_last:
  "list_append (b @ [PyList acc]) (length b) x = Inr (b @ [PyList (acc @ [x])])"
  using list_append_list[OF deref_append_last] by simp

lemma for_each_single: "for_each [i] body s = body i s"
  by (cases "body i s") simp_all

lemma for_each_snoc:
  "for_each (xs @ [x]) body s = and_then (for_each xs body s) (body x)"
proof -
  have "for_each [x] body = body x"
    by (rule ext) (rule for_each_single)
  then show ?thesis by (simp add: for_each_append)
qed

lemma transpose_column_loop:
  assumes img: "deref b img = Some (PyList rows)" and R: "length rows = R"
    and rows: "\<And>ro. ro < R \<Longrightarrow> deref b (rows ! ro) = Some (PyList (G ! ro)) \<and> co < length (G ! ro)"
    and k: "k \<le> R"
  shows "for_each [0..<k] (\<lambda>ro h.
            and_then (getitem h img ro) (\<lambda>r.
            and_then (getitem h r co) (\<lambda>pixel.
            list_append h (length b) pixel))) (b @ [PyList []])
         = Inr (b @ [PyList (map (\<lambda>ro. G ! ro ! co) [0..<k])])"
  using k
proof (induction k)
  case 0
  then show ?case by simp
next
  case (Suc k)
  let ?s = "b @ [PyList (map (\<lambda>ro. G ! ro ! co) [0..<k])]"
  have kR: "k < R" using Suc.prems by simp
  have g1: "getitem ?s img k = Inr (rows ! k)"
    using deref_append_left[OF img] kR R by (simp add: getitem_list)
  have g2: "getitem ?s (rows ! k) co = Inr (G ! k ! co)"
    using rows[OF kR] deref_append_left by (simp add: getitem_list)
  have "for_each [0..<Suc k] (\<lambda>ro h.
            and_then (getitem h img ro) (\<lambda>r.
            and_then (getitem h r co) (\<lambda>pixel.
            list_append h (length b) pixel))) (b @ [PyList []])
        = and_then (getitem ?s img k) (\<lambda>r.
            and_then (getitem ?s r co) (\<lambda>pixel.
            list_append ?s (length b) pixel))"
    using Suc.IH kR by (simp add: for_each_snoc)
  also have "\<dots> = Inr (b @ [PyList (map (\<lambda>ro. G ! ro ! co) [0..<k] @ [G ! k ! co])])"
    using g1 g2 by (simp add: list_append_last)
  finally show ?case by simp
qed

lemma transpose_columns_loop:
  assumes rect: "rect_image h img R C" and k: "k \<le> C"
  shows "for_each [0..<k] (\<lambda>co (h, result).
                 let (h, row) = new_list h in
                 and_then (for_each [0..<R] (\<lambda>ro h.
                             and_then (getitem h img ro) (\<lambda>r.
                             and_then (getitem h r co) (\<lambda>pixel.
                             list_append h row pixel))) h) (\<lambda>h.
                 Inr (h, result @ [row]))) (h, [])
         = Inr (h @ map PyList (take k (tgrid R C (grid h img))), [length h..<length h + k])"
  using k
proof (induction k)
  case 0
  then show ?case by simp
next
  case (Suc k)
  let ?G = "grid h img"
  let ?T = "tgrid R C ?G"
  let ?b = "h @ map PyList (take k ?T)"
  have kC: "k < C" using Suc.prems by simp
  have lenT: "length ?T = C" by (simp add: tgrid_def)
  have lenb: "length ?b = length h + k" using kC lenT by simp
  have img: "deref ?b img = Some (PyList (rows_of h img))"
    using deref_append_left[OF rect_imageD(1)[OF rect]] .
  have rows: "\<And>ro. ro < R \<Longrightarrow>
      deref ?b (rows_of h img ! ro) = Some (PyList (?G ! ro)) \<and> k < length (?G ! ro)"
  proof -
    fix ro assume ro: "ro < R"
    then have rin: "rows_of h img ! ro \<in> set (rows_of h img)"
      using rect_imageD(2)[OF rect] by simp
    have "?G ! ro = rows_of h (rows_of h img ! ro)"
      using ro rect_imageD(2)[OF rect] by (simp add: grid_def)
    then show "deref ?b (rows_of h img ! ro) = Some (PyList (?G ! ro)) \<and> k < length (?G ! ro)"
      using deref_append_left[OF rect_imageD(5)[OF rect rin]] rect_imageD(6)[OF rect rin] kC
      by simp
  qed
  have col: "for_each [0..<R] (\<lambda>ro h.
            and_then (getitem h img ro) (\<lambda>r.
            and_then (getitem h r k) (\<lambda>pixel.
            list_append h (length ?b) pixel))) (?b @ [PyList []])
         = Inr (?b @ [PyList (map (\<lambda>ro. ?G ! ro ! k) [0..<R])])"
    using transpose_column_loop[OF img rect_imageD(2)[OF rect] rows order_refl] .
  have Tk: "?T ! k = map (\<lambda>ro. ?G ! ro ! k) [0..<R]"
    using kC by (simp add: tgrid_def)
  have tk: "take (Suc k) ?T = take k ?T @ [?T ! k]"
    using kC lenT by (simp add: take_Suc_conv_app_nth)
  show ?case
    using Suc.IH kC col
    by (simp add: for_each_snoc new_list_def lenT tk Tk)
qed

lemma append_rows_loop:
  "deref s img = Some (PyList xs) \<Longrightarrow>
   for_each rs (\<lambda>row h. list_append h img row) s = Inr (s[img := PyList (xs @ rs)])"
proof (induction rs arbitrary: s xs)
  case Nil
  then show ?case by (auto simp: deref_def split: if_splits) (metis list_update_id)
next
  case (Cons r rs)
  have d: "deref (s[img := PyList (xs @ [r])]) img = Some (PyList (xs @ [r]))"
    using deref_update_same[OF Cons.prems] .
  show ?case
    using Cons.IH[OF d] list_append_list[OF Cons.prems] by simp
qed

lemma transpose_eq:
  assumes rect: "rect_image h img R C"
  shows "transpose_image h img = Inr (transposed R C h img, VBool True)"
proof -
  let ?h1 = "h @ map PyList (tgrid R C (grid h img))"
  have lenT: "length (tgrid R C (grid h img)) = C" by (simp add: tgrid_def)
  have loop: "for_each [0..<C] (\<lambda>co (h, result).
                 let (h, row) = new_list h in
                 and_then (for_each [0..<R] (\<lambda>ro h.
                             and_then (getitem h img ro) (\<lambda>r.
                             and_then (getitem h r co) (\<lambda>pixel.
                             list_append h row pixel))) h) (\<lambda>h.
                 Inr (h, result @ [row]))) (h, [])
         = Inr (?h1, [length h..<length h + C])"
    using transpose_columns_loop[OF rect order_refl] lenT by simp
  have d1: "deref ?h1 img = Some (PyList (rows_of h img))"
    using deref_append_left[OF rect_imageD(1)[OF rect]] .
  have clr: "list_clear ?h1 img = Inr (?h1[img := PyList []])"
    using d1 by (simp add: list_clear_def)
  have d2: "deref (?h1[img := PyList []]) img = Some (PyList [])"
    using deref_update_same[OF d1] .
  have app: "for_each [length h..<length h + C] (\<lambda>row h. list_append h img row) (?h1[img := PyList []])
             = Inr (?h1[img := PyList [length h..<length h + C]])"
    using append_rows_loop[OF d2] by simp
  show ?thesis
    unfolding transpose_image_def
    using rect_image_prelude[OF rect] loop clr app
    by (simp add: transposed_def)
qed

subsection \<open>transpose: the store it leaves\<close>

lemma length_tgrid [simp]: "length (tgrid R C G) = C"
  by (simp add: tgrid_def)

lemma nth_tgrid_row: "i < C \<Longrightarrow> tgrid R C G ! i = map (\<lambda>ro. G ! ro ! i) [0..<R]"
  by (simp add: tgrid_def)

lemma nth_tgrid: "i < C \<Longrightarrow> j < R \<Longrightarrow> tgrid R C G ! i ! j = G ! j ! i"
  by (simp add: tgrid_def)

lemma deref_lt: "deref h r = Some x \<Longrightarrow> r < length h"
  by (auto simp: deref_def split: if_splits)

lemma grid_nth:
  "ro < length (rows_of h img) \<Longrightarrow> grid h img ! ro = rows_of h (rows_of h img ! ro)"
  by (simp add: grid_def)

lemma transposed_img:
  assumes rect: "rect_image h img R C"
  shows "deref (transposed R C h img) img = Some (PyList [length h..<length h + C])"
proof -
  have "img < length h" using deref_lt[OF rect_imageD(1)[OF rect]] .
  then show ?thesis by (simp add: transposed_def deref_def)
qed

lemma transposed_new_row:
  assumes rect: "rect_image h img R C" and i: "i < C"
  shows "deref (transposed R C h img) (length h + i) = Some (PyList (tgrid R C (grid h img) ! i))"
proof -
  have "img < length h" using deref_lt[OF rect_imageD(1)[OF rect]] .
  then show ?thesis using i by (simp add: transposed_def deref_def nth_append)
qed

lemma transposed_old:
  assumes x: "x < length h" and ne: "x \<noteq> img"
  shows "deref (transposed R C h img) x = deref h x"
  using x ne by (simp add: transposed_def deref_def nth_append)

lemma transposed_pixel:
  assumes rect: "rect_image h img R C" and p: "deref h p = Some (PyPixel px)"
  shows "deref (transposed R C h img) p = Some (PyPixel px)"
proof -
  have "p \<noteq> img" using p rect_imageD(1)[OF rect] by auto
  then show ?thesis using transposed_old[OF deref_lt[OF p]] p by simp
qed

lemma transposed_rows_of:
  assumes rect: "rect_image h img R C"
  shows "rows_of (transposed R C h img) img = [length h..<length h + C]"
  using transposed_img[OF rect] by (rule rows_of_eq)

lemma transposed_grid:
  assumes rect: "rect_image h img R C"
  shows "grid (transposed R C h img) img = tgrid R C (grid h img)"
proof (rule nth_equalityI)
  show "length (grid (transposed R C h img) img) = length (tgrid R C (grid h img))"
    by (simp add: grid_def transposed_rows_of[OF rect])
next
  fix i assume "i < length (grid (transposed R C h img) img)"
  then have i: "i < C" by (simp add: grid_def transposed_rows_of[OF rect])
  show "grid (transposed R C h img) img ! i = tgrid R C (grid h img) ! i"
    using i rows_of_eq[OF transposed_new_row[OF rect i]]
    by (simp add: grid_def transposed_rows_of[OF rect])
qed

lemma is_pixel_I: "deref h p = Some (PyPixel px) \<Longrightarrow> is_pixel h p"
  by (simp add: is_pixel_def)

lemma is_list_I: "deref h r = Some (PyList xs) \<Longrightarrow> is_list h r"
  by (simp add: is_list_def)

lemma transposed_rect:
  assumes rect: "rect_image h img R C"
  shows "rect_image (transposed R C h img) img C R"
proof -
  let ?h' = "transposed R C h img"
  let ?G = "grid h img"
  have rows': "rows_of ?h' img = [length h..<length h + C]"
    using transposed_rows_of[OF rect] .
  have row: "is_list ?h' r \<and> length (rows_of ?h' r) = R \<and> (\<forall>p \<in> set (rows_of ?h' r). is_pixel ?h' p)"
    if r: "r \<in> set (rows_of ?h' img)" for r
  proof -
    define i where "i = r - length h"
    have "length h \<le> r" "r < length h + C" using r rows' by auto
    then have i: "i < C" and ri: "r = length h + i" by (auto simp: i_def)
    have d: "deref ?h' r = Some (PyList (tgrid R C ?G ! i))"
      using transposed_new_row[OF rect i] ri by simp
    have cells: "rows_of ?h' r = map (\<lambda>ro. ?G ! ro ! i) [0..<R]"
      using rows_of_eq[OF d] nth_tgrid_row[OF i] by simp
    have "is_pixel ?h' p" if p: "p \<in> set (rows_of ?h' r)" for p
    proof -
      obtain ro where ro: "ro < R" and pe: "p = ?G ! ro ! i"
        using p cells by auto
      have rl: "ro < length (rows_of h img)" using ro rect_imageD(2)[OF rect] by simp
      then have rin: "rows_of h img ! ro \<in> set (rows_of h img)" by simp
      have "p \<in> set (rows_of h (rows_of h img ! ro))"
        using pe grid_nth[OF rl] rect_imageD(6)[OF rect rin] i by simp
      then have "is_pixel h p" using rect_imageD(7)[OF rect rin] by simp
      then obtain px where "deref h p = Some (PyPixel px)" using is_pixel_deref by blast
      then show ?thesis using transposed_pixel[OF rect] is_pixel_I by blast
    qed
    then show ?thesis using d cells is_list_I by auto
  qed
  show ?thesis
    unfolding rect_image_def
    using is_list_I[OF transposed_img[OF rect]] rows' rect_imageD(3,4)[OF rect] row
    by auto
qed

subsection \<open>Transposed and reversed tables\<close>

lemma rectg_grid:
  assumes rect: "rect_image h img R C"
  shows "rectg R C (grid h img)"
  using rect_imageD(2,6)[OF rect] by (auto simp: rectg_def grid_def)

lemma rectg_tgrid: "rectg C R (tgrid R C G)"
  by (auto simp: rectg_def tgrid_def)

lemma rectg_rev: "rectg R C G \<Longrightarrow> rectg R C (rev G)"
  by (simp add: rectg_def)

lemma rectg_nth: "rectg R C G \<Longrightarrow> i < R \<Longrightarrow> length (G ! i) = C"
  by (simp add: rectg_def)

lemma tgrid_tgrid:
  assumes "rectg R C G"
  shows "tgrid C R (tgrid R C G) = G"
proof (rule nth_equalityI)
  show "length (tgrid C R (tgrid R C G)) = length G"
    using assms by (simp add: rectg_def)
next
  fix i assume "i < length (tgrid C R (tgrid R C G))"
  then have i: "i < R" by simp
  have "tgrid C R (tgrid R C G) ! i = map (\<lambda>co. G ! i ! co) [0..<C]"
    using i by (simp add: nth_tgrid_row nth_tgrid cong: map_cong)
  also have "\<dots> = G ! i"
    using rectg_nth[OF assms i] by (metis map_nth)
  finally show "tgrid C R (tgrid R C G) ! i = G ! i" .
qed

lemma rev_tgrid_twice:
  assumes "rectg R C G"
  shows "rev (tgrid C R (rev (tgrid R C G))) = map rev (rev G)"
proof (rule nth_equalityI)
  show "length (rev (tgrid C R (rev (tgrid R C G)))) = length (map rev (rev G))"
    using assms by (simp add: rectg_def)
next
  fix i assume "i < length (rev (tgrid C R (rev (tgrid R C G))))"
  then have i: "i < R" by simp
  have len: "length G = R" using assms by (simp add: rectg_def)
  have li: "length (G ! (R - Suc i)) = C"
    using rectg_nth[OF assms, of "R - Suc i"] i by simp
  have "rev (tgrid C R (rev (tgrid R C G))) ! i = tgrid C R (rev (tgrid R C G)) ! (R - Suc i)"
    using i by (simp add: rev_nth)
  also have "\<dots> = map (\<lambda>ro. rev (tgrid R C G) ! ro ! (R - Suc i)) [0..<C]"
    using i by (simp add: nth_tgrid_row)
  also have "\<dots> = map (\<lambda>ro. G ! (R - Suc i) ! (C - Suc ro)) [0..<C]"
    using i by (auto simp: rev_nth nth_tgrid)
  also have "\<dots> = rev (G ! (R - Suc i))"
    using li by (auto intro!: nth_equalityI simp: rev_nth)
  also have "\<dots> = map rev (rev G) ! i"
    using i len by (simp add: rev_nth)
  finally show "rev (tgrid C R (rev (tgrid R C G))) ! i = map rev (rev G) ! i" .
qed

lemma tgrid_rev_twice:
  assumes "rectg R C G"
  shows "tgrid C R (rev (tgrid R C (rev G))) = map rev (rev G)"
proof (rule nth_equalityI)
  show "length (tgrid C R (rev (tgrid R C (rev G)))) = length (map rev (rev G))"
    using assms by (simp add: rectg_def)
next
  fix i assume "i < length (tgrid C R (rev (tgrid R C (rev G))))"
  then have i: "i < R" by simp
  have len: "length G = R" using assms by (simp add: rectg_def)
  have li: "length (G ! (R - Suc i)) = C"
    using rectg_nth[OF assms, of "R - Suc i"] i by simp
  have "tgrid C R (rev (tgrid R C (rev G))) ! i = map (\<lambda>ro. rev (tgrid R C (rev G)) ! ro ! i) [0..<C]"
    using i by (simp add: nth_tgrid_row)
  also have "\<dots> = map (\<lambda>ro. G ! (R - Suc i) ! (C - Suc ro)) [0..<C]"
    using i len by (auto simp: rev_nth nth_tgrid)
  also have "\<dots> = rev (G ! (R - Suc i))"
    using li by (auto intro!: nth_equalityI simp: rev_nth)
  also have "\<dots> = map rev (rev G) ! i"
    using i len by (simp add: rev_nth)
  finally show "tgrid C R (rev (tgrid R C (rev G))) ! i = map rev (rev G) ! i" .
qed

lemma map_rev_rev_twice: "map rev (rev (map rev (rev G))) = G"
  by (simp add: rev_map)

lemma mset_concat_cons_map:
  "mset (concat (map (\<lambda>x. f x # g x) xs)) = mset (map f xs) + mset (concat (map g xs))"
  by (induction xs) auto

lemma tgrid_Cons:
  "tgrid (Suc R) C (row # G) = map (\<lambda>co. row ! co # map (\<lambda>ro. G ! ro ! co) [0..<R]) [0..<C]"
  unfolding tgrid_def by (simp add: map_upt_Suc del: upt_Suc)

lemma mset_concat_tgrid:
  "rectg R C G \<Longrightarrow> mset (concat (tgrid R C G)) = mset (concat G)"
proof (induction G arbitrary: R)
  case Nil
  then show ?case by (simp add: rectg_def tgrid_def)
next
  case (Cons row G)
  then obtain R' where R: "R = Suc R'" and G: "rectg R' C G" and row: "length row = C"
    by (auto simp: rectg_def)
  have "mset (concat (tgrid R C (row # G)))
        = mset (map (\<lambda>co. row ! co) [0..<C]) + mset (concat (tgrid R' C G))"
    unfolding R tgrid_Cons mset_concat_cons_map by (simp add: tgrid_def)
  also have "map (\<lambda>co. row ! co) [0..<C] = row"
    using row by (metis map_nth)
  finally show ?case using Cons.IH[OF G] by simp
qed

lemma mset_concat_rev: "mset (concat (rev G)) = mset (concat G)"
  by (induction G) auto

lemma mset_concat_map_cong:
  "(\<And>x. x \<in> set xs \<Longrightarrow> mset (f x) = mset (g x)) \<Longrightarrow>
   mset (concat (map f xs)) = mset (concat (map g xs))"
  by (induction xs) auto

subsection \<open>rotate\<close>

lemma rev_row_img_rect:
  assumes rect: "rect_image h img R C"
  shows "rect_image (rev_row img h) img R C"
  unfolding rect_image_def
  using rows_of_rev_row_img[OF rect] rect_imageD(2,3,4,6,7)[OF rect] rect
  by (auto simp: is_list_rev_row is_pixel_rev_row rect_image_def)

lemma rev_row_img_grid:
  assumes rect: "rect_image h img R C"
  shows "grid (rev_row img h) img = rev (grid h img)"
  using rows_of_rev_row_img[OF rect] by (simp add: grid_def rev_map)

lemma list_reverse_img:
  assumes rect: "rect_image h img R C"
  shows "list_reverse h img = Inr (rev_row img h)"
  using rect_imageD(1)[OF rect] by (simp add: list_reverse_list is_list_def)

lemma rotate_left_eq:
  assumes rect: "rect_image h img R C"
  shows "rotate_image h img (VBool False) = Inr (rev_row img (transposed R C h img), VBool True)"
  unfolding rotate_image_def
  using transpose_eq[OF rect] list_reverse_img[OF transposed_rect[OF rect]]
  by simp

lemma rotate_right_eq:
  assumes rect: "rect_image h img R C"
  shows "rotate_image h img (VBool True) = Inr (transposed R C (rev_row img h) img, VBool True)"
  unfolding rotate_image_def
  using list_reverse_img[OF rect] transpose_eq[OF rev_row_img_rect[OF rect]]
  by simp

lemma rotate_left_rect:
  assumes rect: "rect_image h img R C"
  shows "rect_image (rev_row img (transposed R C h img)) img C R"
  using rev_row_img_rect[OF transposed_rect[OF rect]] .

lemma rotate_right_rect:
  assumes rect: "rect_image h img R C"
  shows "rect_image (transposed R C (rev_row img h) img) img C R"
  using transposed_rect[OF rev_row_img_rect[OF rect]] .

lemma rotate_left_grid:
  assumes rect: "rect_image h img R C"
  shows "grid (rev_row img (transposed R C h img)) img = rev (tgrid R C (grid h img))"
  using rev_row_img_grid[OF transposed_rect[OF rect]] transposed_grid[OF rect] by simp

lemma rotate_right_grid:
  assumes rect: "rect_image h img R C"
  shows "grid (transposed R C (rev_row img h) img) img = tgrid R C (rev (grid h img))"
  using transposed_grid[OF rev_row_img_rect[OF rect]] rev_row_img_grid[OF rect] by simp

subsection \<open>Pixels are moved, never changed\<close>

lemma pixels_kept_trans: "pixels_kept h h' \<Longrightarrow> pixels_kept h' h'' \<Longrightarrow> pixels_kept h h''"
  by (simp add: pixels_kept_def)

lemma pixels_kept_transposed:
  assumes rect: "rect_image h img R C"
  shows "pixels_kept h (transposed R C h img)"
  using transposed_pixel[OF rect] by (simp add: pixels_kept_def)

lemma pixels_kept_rev_row: "pixels_kept h (rev_row r h)"
  using deref_pixel_rev_row by (simp add: pixels_kept_def)

lemma pixels_kept_fold_rev_row: "pixels_kept h (fold rev_row rs h)"
  using deref_pixel_fold_rev_row by (simp add: pixels_kept_def)

lemma pixel_values_eq:
  assumes rect: "rect_image h img R C" and kept: "pixels_kept h h'"
    and ms: "mset (concat (grid h' img)) = mset (concat (grid h img))"
  shows "pixel_values h' img = pixel_values h img"
proof -
  have same: "deref h' p = deref h p" if "p \<in># mset (concat (grid h img))" for p
  proof -
    from that have "p \<in> set (concat (grid h img))" by simp
    then have "is_pixel h p"
      unfolding in_grid using rect_imageD(7)[OF rect] by blast
    then obtain px where "deref h p = Some (PyPixel px)" using is_pixel_deref by blast
    then show ?thesis using kept by (simp add: pixels_kept_def)
  qed
  have "pixel_values h' img = image_mset (deref h') (mset (concat (grid h img)))"
    unfolding pixel_values_def using ms by (metis mset_map)
  also have "\<dots> = image_mset (deref h) (mset (concat (grid h img)))"
    using same by (rule image_mset_cong)
  finally show ?thesis by (simp add: pixel_values_def)
qed

subsection \<open>The claims about transpose and rotate\<close>

text \<open>
  Claim C1. On a non-empty rectangular image of height \<open>R\<close> and width \<open>C\<close>,
  \<^verbatim>\<open>transpose\<close> returns \<^verbatim>\<open>True\<close>; afterwards the image has height \<open>C\<close> and width \<open>R\<close>, and
  the pixel at \<open>(i, j)\<close> is the pixel that was at \<open>(j, i)\<close>. The list object \<open>img\<close> itself
  is the one that changed: it now holds \<open>C\<close> newly allocated rows, and every other
  object of the store before the call is as it was.
\<close>

theorem transpose_swaps:
  assumes rect: "rect_image h img R C"
  shows "\<exists>h'. transpose_image h img = Inr (h', VBool True)
           \<and> rect_image h' img C R
           \<and> (\<forall>i < C. \<forall>j < R. grid h' img ! i ! j = grid h img ! j ! i)
           \<and> rows_of h' img = [length h..<length h + C]
           \<and> (\<forall>x < length h. x \<noteq> img \<longrightarrow> deref h' x = deref h x)"
proof -
  let ?h' = "transposed R C h img"
  have "\<forall>i < C. \<forall>j < R. grid ?h' img ! i ! j = grid h img ! j ! i"
    using transposed_grid[OF rect] by (simp add: nth_tgrid)
  moreover have "\<forall>x < length h. x \<noteq> img \<longrightarrow> deref ?h' x = deref h x"
    using transposed_old by blast
  ultimately show ?thesis
    using transpose_eq[OF rect] transposed_rect[OF rect] transposed_rows_of[OF rect] by blast
qed

theorem transpose_swaps_witness:
  "rect_image img_2x3 0 2 3 \<and>
   (\<exists>h'. transpose_image img_2x3 0 = Inr (h', VBool True)
           \<and> rect_image h' 0 3 2
           \<and> (\<forall>i < 3. \<forall>j < 2. grid h' 0 ! i ! j = grid img_2x3 0 ! j ! i)
           \<and> rows_of h' 0 = [length img_2x3..<length img_2x3 + 3]
           \<and> (\<forall>x < length img_2x3. x \<noteq> 0 \<longrightarrow> deref h' x = deref img_2x3 x))"
  using transpose_swaps[OF rect_img_2x3] rect_img_2x3 by blast

text \<open>
  Claim C8. On a non-empty rectangular image of height \<open>R\<close> and width \<open>C\<close>, two calls of
  \<^verbatim>\<open>transpose\<close> in a row both return \<^verbatim>\<open>True\<close> and give back an image of height \<open>R\<close> and
  width \<open>C\<close> with every pixel at its first position, the pixel objects as they were.
\<close>

theorem transpose_involution:
  assumes rect: "rect_image h img R C"
  shows "\<exists>h1 h2. transpose_image h img = Inr (h1, VBool True)
           \<and> transpose_image h1 img = Inr (h2, VBool True)
           \<and> rect_image h2 img R C \<and> grid h2 img = grid h img \<and> pixels_kept h h2"
proof -
  let ?h1 = "transposed R C h img"
  let ?h2 = "transposed C R ?h1 img"
  have r1: "rect_image ?h1 img C R" using transposed_rect[OF rect] .
  have g: "grid ?h2 img = grid h img"
    using transposed_grid[OF r1] transposed_grid[OF rect] tgrid_tgrid[OF rectg_grid[OF rect]]
    by simp
  have k: "pixels_kept h ?h2"
    using pixels_kept_trans[OF pixels_kept_transposed[OF rect] pixels_kept_transposed[OF r1]] .
  show ?thesis
    using transpose_eq[OF rect] transpose_eq[OF r1] transposed_rect[OF r1] g k by blast
qed

theorem transpose_involution_witness:
  "rect_image img_2x3 0 2 3 \<and>
   (\<exists>h1 h2. transpose_image img_2x3 0 = Inr (h1, VBool True)
           \<and> transpose_image h1 0 = Inr (h2, VBool True)
           \<and> rect_image h2 0 2 3 \<and> grid h2 0 = grid img_2x3 0 \<and> pixels_kept img_2x3 h2)"
  using transpose_involution[OF rect_img_2x3] rect_img_2x3 by blast

text \<open>
  Claim C3. On a non-empty rectangular image, \<^verbatim>\<open>rotate\<close> with \<^verbatim>\<open>right=False\<close> returns
  \<^verbatim>\<open>True\<close> and leaves the store that \<^verbatim>\<open>transpose\<close> followed by reversing the rows of the
  image leaves; with \<^verbatim>\<open>right=True\<close> it returns \<^verbatim>\<open>True\<close> and leaves the store that
  reversing the rows followed by \<^verbatim>\<open>transpose\<close> leaves. In the first case row \<open>i\<close> of the
  result is column \<open>C - 1 - i\<close> of the image, in the second row \<open>i\<close> is column \<open>i\<close> read
  from the bottom.
\<close>

theorem rotate_is_composition:
  assumes rect: "rect_image h img R C"
  shows "(\<exists>h'. transpose_then_reverse h img = Inr h'
            \<and> rotate_image h img (VBool False) = Inr (h', VBool True)
            \<and> (\<forall>i < C. \<forall>j < R. grid h' img ! i ! j = grid h img ! j ! (C - 1 - i)))
       \<and> (\<exists>h'. reverse_then_transpose h img = Inr h'
            \<and> rotate_image h img (VBool True) = Inr (h', VBool True)
            \<and> (\<forall>i < C. \<forall>j < R. grid h' img ! i ! j = grid h img ! (R - 1 - j) ! i))"
proof
  let ?h' = "rev_row img (transposed R C h img)"
  have a: "transpose_then_reverse h img = Inr ?h'"
    unfolding transpose_then_reverse_def
    using transpose_eq[OF rect] list_reverse_img[OF transposed_rect[OF rect]] by simp
  have b: "\<forall>i < C. \<forall>j < R. grid ?h' img ! i ! j = grid h img ! j ! (C - 1 - i)"
    using rotate_left_grid[OF rect] by (auto simp: rev_nth nth_tgrid)
  show "\<exists>h'. transpose_then_reverse h img = Inr h'
            \<and> rotate_image h img (VBool False) = Inr (h', VBool True)
            \<and> (\<forall>i < C. \<forall>j < R. grid h' img ! i ! j = grid h img ! j ! (C - 1 - i))"
    using a b rotate_left_eq[OF rect] by blast
next
  let ?h' = "transposed R C (rev_row img h) img"
  have len: "length (grid h img) = R"
    using rectg_grid[OF rect] by (simp add: rectg_def)
  have a: "reverse_then_transpose h img = Inr ?h'"
    unfolding reverse_then_transpose_def
    using list_reverse_img[OF rect] transpose_eq[OF rev_row_img_rect[OF rect]] by simp
  have b: "\<forall>i < C. \<forall>j < R. grid ?h' img ! i ! j = grid h img ! (R - 1 - j) ! i"
    using rotate_right_grid[OF rect] len by (auto simp: rev_nth nth_tgrid)
  show "\<exists>h'. reverse_then_transpose h img = Inr h'
            \<and> rotate_image h img (VBool True) = Inr (h', VBool True)
            \<and> (\<forall>i < C. \<forall>j < R. grid h' img ! i ! j = grid h img ! (R - 1 - j) ! i)"
    using a b rotate_right_eq[OF rect] by blast
qed

theorem rotate_is_composition_witness:
  "rect_image img_2x3 0 2 3 \<and>
   (\<exists>h'. transpose_then_reverse img_2x3 0 = Inr h'
            \<and> rotate_image img_2x3 0 (VBool False) = Inr (h', VBool True)
            \<and> (\<forall>i < 3. \<forall>j < 2. grid h' 0 ! i ! j = grid img_2x3 0 ! j ! (3 - 1 - i)))
   \<and> (\<exists>h'. reverse_then_transpose img_2x3 0 = Inr h'
            \<and> rotate_image img_2x3 0 (VBool True) = Inr (h', VBool True)
            \<and> (\<forall>i < 3. \<forall>j < 2. grid h' 0 ! i ! j = grid img_2x3 0 ! (2 - 1 - j) ! i))"
  using rotate_is_composition[OF rect_img_2x3] rect_img_2x3 by blast

text \<open>
  Claim C9. On a non-empty rectangular image of height \<open>R\<close> and width \<open>C\<close>, four calls of
  \<^verbatim>\<open>rotate\<close> in a row with \<^verbatim>\<open>right=False\<close> all return \<^verbatim>\<open>True\<close> and give back an image of
  height \<open>R\<close> and width \<open>C\<close> with every pixel at its first position, the pixel objects as
  they were; and so do four calls with \<^verbatim>\<open>right=True\<close>.
\<close>

theorem four_rotations_identity:
  assumes rect: "rect_image h img R C"
  shows "\<forall>right. \<exists>h1 h2 h3 h4.
           rotate_image h img (VBool right) = Inr (h1, VBool True)
         \<and> rotate_image h1 img (VBool right) = Inr (h2, VBool True)
         \<and> rotate_image h2 img (VBool right) = Inr (h3, VBool True)
         \<and> rotate_image h3 img (VBool right) = Inr (h4, VBool True)
         \<and> rect_image h4 img R C \<and> grid h4 img = grid h img \<and> pixels_kept h h4"
proof
  fix right
  let ?G = "grid h img"
  have G: "rectg R C ?G" using rectg_grid[OF rect] .
  show "\<exists>h1 h2 h3 h4.
           rotate_image h img (VBool right) = Inr (h1, VBool True)
         \<and> rotate_image h1 img (VBool right) = Inr (h2, VBool True)
         \<and> rotate_image h2 img (VBool right) = Inr (h3, VBool True)
         \<and> rotate_image h3 img (VBool right) = Inr (h4, VBool True)
         \<and> rect_image h4 img R C \<and> grid h4 img = grid h img \<and> pixels_kept h h4"
  proof (cases right)
    case False
    let ?h1 = "rev_row img (transposed R C h img)"
    let ?h2 = "rev_row img (transposed C R ?h1 img)"
    let ?h3 = "rev_row img (transposed R C ?h2 img)"
    let ?h4 = "rev_row img (transposed C R ?h3 img)"
    have r1: "rect_image ?h1 img C R" using rotate_left_rect[OF rect] .
    have r2: "rect_image ?h2 img R C" using rotate_left_rect[OF r1] .
    have r3: "rect_image ?h3 img C R" using rotate_left_rect[OF r2] .
    have r4: "rect_image ?h4 img R C" using rotate_left_rect[OF r3] .
    have g2: "grid ?h2 img = map rev (rev ?G)"
      using rotate_left_grid[OF r1] rotate_left_grid[OF rect] rev_tgrid_twice[OF G] by simp
    have g4: "grid ?h4 img = map rev (rev (grid ?h2 img))"
      using rotate_left_grid[OF r3] rotate_left_grid[OF r2] rev_tgrid_twice[OF rectg_grid[OF r2]]
      by simp
    have g: "grid ?h4 img = ?G"
      unfolding g4 g2 by (rule map_rev_rev_twice)
    have k1: "pixels_kept h ?h1"
      using pixels_kept_trans[OF pixels_kept_transposed[OF rect] pixels_kept_rev_row] .
    have k2: "pixels_kept ?h1 ?h2"
      using pixels_kept_trans[OF pixels_kept_transposed[OF r1] pixels_kept_rev_row] .
    have k3: "pixels_kept ?h2 ?h3"
      using pixels_kept_trans[OF pixels_kept_transposed[OF r2] pixels_kept_rev_row] .
    have k4: "pixels_kept ?h3 ?h4"
      using pixels_kept_trans[OF pixels_kept_transposed[OF r3] pixels_kept_rev_row] .
    have k: "pixels_kept h ?h4"
      using pixels_kept_trans[OF pixels_kept_trans[OF pixels_kept_trans[OF k1 k2] k3] k4] .
    have "rotate_image h img (VBool False) = Inr (?h1, VBool True)
         \<and> rotate_image ?h1 img (VBool False) = Inr (?h2, VBool True)
         \<and> rotate_image ?h2 img (VBool False) = Inr (?h3, VBool True)
         \<and> rotate_image ?h3 img (VBool False) = Inr (?h4, VBool True)
         \<and> rect_image ?h4 img R C \<and> grid ?h4 img = grid h img \<and> pixels_kept h ?h4"
      by (rule conjI[OF rotate_left_eq[OF rect] conjI[OF rotate_left_eq[OF r1]
            conjI[OF rotate_left_eq[OF r2] conjI[OF rotate_left_eq[OF r3] conjI[OF r4 conjI[OF g k]]]]]])
    moreover have "right = False" using False by simp
    ultimately show ?thesis by blast
  next
    case True
    let ?h1 = "transposed R C (rev_row img h) img"
    let ?h2 = "transposed C R (rev_row img ?h1) img"
    let ?h3 = "transposed R C (rev_row img ?h2) img"
    let ?h4 = "transposed C R (rev_row img ?h3) img"
    have r1: "rect_image ?h1 img C R" using rotate_right_rect[OF rect] .
    have r2: "rect_image ?h2 img R C" using rotate_right_rect[OF r1] .
    have r3: "rect_image ?h3 img C R" using rotate_right_rect[OF r2] .
    have r4: "rect_image ?h4 img R C" using rotate_right_rect[OF r3] .
    have g2: "grid ?h2 img = map rev (rev ?G)"
      using rotate_right_grid[OF r1] rotate_right_grid[OF rect] tgrid_rev_twice[OF G] by simp
    have g4: "grid ?h4 img = map rev (rev (grid ?h2 img))"
      using rotate_right_grid[OF r3] rotate_right_grid[OF r2] tgrid_rev_twice[OF rectg_grid[OF r2]]
      by simp
    have g: "grid ?h4 img = ?G"
      unfolding g4 g2 by (rule map_rev_rev_twice)
    have k1: "pixels_kept h ?h1"
      using pixels_kept_trans[OF pixels_kept_rev_row pixels_kept_transposed[OF rev_row_img_rect[OF rect]]] .
    have k2: "pixels_kept ?h1 ?h2"
      using pixels_kept_trans[OF pixels_kept_rev_row pixels_kept_transposed[OF rev_row_img_rect[OF r1]]] .
    have k3: "pixels_kept ?h2 ?h3"
      using pixels_kept_trans[OF pixels_kept_rev_row pixels_kept_transposed[OF rev_row_img_rect[OF r2]]] .
    have k4: "pixels_kept ?h3 ?h4"
      using pixels_kept_trans[OF pixels_kept_rev_row pixels_kept_transposed[OF rev_row_img_rect[OF r3]]] .
    have k: "pixels_kept h ?h4"
      using pixels_kept_trans[OF pixels_kept_trans[OF pixels_kept_trans[OF k1 k2] k3] k4] .
    have "rotate_image h img (VBool True) = Inr (?h1, VBool True)
         \<and> rotate_image ?h1 img (VBool True) = Inr (?h2, VBool True)
         \<and> rotate_image ?h2 img (VBool True) = Inr (?h3, VBool True)
         \<and> rotate_image ?h3 img (VBool True) = Inr (?h4, VBool True)
         \<and> rect_image ?h4 img R C \<and> grid ?h4 img = grid h img \<and> pixels_kept h ?h4"
      by (rule conjI[OF rotate_right_eq[OF rect] conjI[OF rotate_right_eq[OF r1]
            conjI[OF rotate_right_eq[OF r2] conjI[OF rotate_right_eq[OF r3] conjI[OF r4 conjI[OF g k]]]]]])
    moreover have "right = True" using True by simp
    ultimately show ?thesis by blast
  qed
qed

theorem four_rotations_identity_witness:
  "rect_image img_2x3 0 2 3 \<and>
   (\<forall>right. \<exists>h1 h2 h3 h4.
           rotate_image img_2x3 0 (VBool right) = Inr (h1, VBool True)
         \<and> rotate_image h1 0 (VBool right) = Inr (h2, VBool True)
         \<and> rotate_image h2 0 (VBool right) = Inr (h3, VBool True)
         \<and> rotate_image h3 0 (VBool right) = Inr (h4, VBool True)
         \<and> rect_image h4 0 2 3 \<and> grid h4 0 = grid img_2x3 0 \<and> pixels_kept img_2x3 h4)"
  using four_rotations_identity[OF rect_img_2x3] rect_img_2x3 by blast

text \<open>
  Claim C10. On a non-empty rectangular image, \<^verbatim>\<open>flip\<close>, \<^verbatim>\<open>transpose\<close> and \<^verbatim>\<open>rotate\<close>, with
  either value of the flag, return \<^verbatim>\<open>True\<close> and leave every pixel object of the store
  with the channels it had; the image holds the same pixels as before, each as often as
  before, and so the same multiset of pixel values.
\<close>

theorem relocation_keeps_pixels:
  assumes rect: "rect_image h img R C"
  shows "(\<forall>vertical. \<exists>h'. flip h img (VBool vertical) = Inr (h', VBool True)
            \<and> pixels_kept h h'
            \<and> mset (concat (grid h' img)) = mset (concat (grid h img))
            \<and> pixel_values h' img = pixel_values h img)
       \<and> (\<exists>h'. transpose_image h img = Inr (h', VBool True)
            \<and> pixels_kept h h'
            \<and> mset (concat (grid h' img)) = mset (concat (grid h img))
            \<and> pixel_values h' img = pixel_values h img)
       \<and> (\<forall>right. \<exists>h'. rotate_image h img (VBool right) = Inr (h', VBool True)
            \<and> pixels_kept h h'
            \<and> mset (concat (grid h' img)) = mset (concat (grid h img))
            \<and> pixel_values h' img = pixel_values h img)"
proof -
  let ?G = "grid h img"
  have G: "rectg R C ?G" using rectg_grid[OF rect] .
  have fin: "\<And>h'. pixels_kept h h' \<Longrightarrow> mset (concat (grid h' img)) = mset (concat ?G) \<Longrightarrow>
      pixels_kept h h' \<and> mset (concat (grid h' img)) = mset (concat ?G)
      \<and> pixel_values h' img = pixel_values h img"
    using pixel_values_eq[OF rect] by blast
  have fh: "\<exists>h'. flip h img (VBool False) = Inr (h', VBool True)
            \<and> pixels_kept h h'
            \<and> mset (concat (grid h' img)) = mset (concat ?G)
            \<and> pixel_values h' img = pixel_values h img"
  proof -
    let ?h' = "fold rev_row (rows_of h img) h"
    have "grid ?h' img = map (rows_of ?h') (rows_of h img)"
      using rows_of_img_fold_rev_row[OF rect] by (simp add: grid_def)
    then have "mset (concat (grid ?h' img)) = mset (concat ?G)"
      unfolding grid_def
      using mset_concat_map_cong[of "rows_of h img" "rows_of ?h'" "rows_of h"]
        mset_rows_of_fold_rev_row by simp
    then show ?thesis
      using flip_horizontal_eq[OF rect] fin[OF pixels_kept_fold_rev_row] by blast
  qed
  have fv: "\<exists>h'. flip h img (VBool True) = Inr (h', VBool True)
            \<and> pixels_kept h h'
            \<and> mset (concat (grid h' img)) = mset (concat ?G)
            \<and> pixel_values h' img = pixel_values h img"
  proof -
    have "mset (concat (grid (rev_row img h) img)) = mset (concat ?G)"
      using rev_row_img_grid[OF rect] by (simp add: mset_concat_rev)
    then show ?thesis
      using flip_vertical_eq[OF rect] fin[OF pixels_kept_rev_row] by blast
  qed
  have tr: "\<exists>h'. transpose_image h img = Inr (h', VBool True)
            \<and> pixels_kept h h'
            \<and> mset (concat (grid h' img)) = mset (concat ?G)
            \<and> pixel_values h' img = pixel_values h img"
  proof -
    have "mset (concat (grid (transposed R C h img) img)) = mset (concat ?G)"
      using transposed_grid[OF rect] mset_concat_tgrid[OF G] by simp
    then show ?thesis
      using transpose_eq[OF rect] fin[OF pixels_kept_transposed[OF rect]] by blast
  qed
  have rl: "\<exists>h'. rotate_image h img (VBool False) = Inr (h', VBool True)
            \<and> pixels_kept h h'
            \<and> mset (concat (grid h' img)) = mset (concat ?G)
            \<and> pixel_values h' img = pixel_values h img"
  proof -
    let ?h' = "rev_row img (transposed R C h img)"
    have m: "mset (concat (grid ?h' img)) = mset (concat ?G)"
      using rotate_left_grid[OF rect] mset_concat_tgrid[OF G] by (simp add: mset_concat_rev)
    have k: "pixels_kept h ?h'"
      using pixels_kept_trans[OF pixels_kept_transposed[OF rect] pixels_kept_rev_row] .
    show ?thesis
      using rotate_left_eq[OF rect] fin[OF k m] by blast
  qed
  have rr: "\<exists>h'. rotate_image h img (VBool True) = Inr (h', VBool True)
            \<and> pixels_kept h h'
            \<and> mset (concat (grid h' img)) = mset (concat ?G)
            \<and> pixel_values h' img = pixel_values h img"
  proof -
    let ?h' = "transposed R C (rev_row img h) img"
    have m: "mset (concat (grid ?h' img)) = mset (concat ?G)"
      using rotate_right_grid[OF rect] mset_concat_tgrid[OF rectg_rev[OF G]]
      by (simp add: mset_concat_rev)
    have k: "pixels_kept h ?h'"
      using pixels_kept_trans[OF pixels_kept_rev_row pixels_kept_transposed[OF rev_row_img_rect[OF rect]]] .
    show ?thesis
      using rotate_right_eq[OF rect] fin[OF k m] by blast
  qed
  have f: "\<forall>vertical. \<exists>h'. flip h img (VBool vertical) = Inr (h', VBool True)
            \<and> pixels_kept h h'
            \<and> mset (concat (grid h' img)) = mset (concat ?G)
            \<and> pixel_values h' img = pixel_values h img"
    using fh fv by (metis (full_types))
  have r: "\<forall>right. \<exists>h'. rotate_image h img (VBool right) = Inr (h', VBool True)
            \<and> pixels_kept h h'
            \<and> mset (concat (grid h' img)) = mset (concat ?G)
            \<and> pixel_values h' img = pixel_values h img"
    using rl rr by (metis (full_types))
  show ?thesis using f tr r by blast
qed

theorem relocation_keeps_pixels_witness:
  "rect_image img_2x3 0 2 3 \<and>
   (\<forall>vertical. \<exists>h'. flip img_2x3 0 (VBool vertical) = Inr (h', VBool True)
            \<and> pixels_kept img_2x3 h'
            \<and> mset (concat (grid h' 0)) = mset (concat (grid img_2x3 0))
            \<and> pixel_values h' 0 = pixel_values img_2x3 0)
       \<and> (\<exists>h'. transpose_image img_2x3 0 = Inr (h', VBool True)
            \<and> pixels_kept img_2x3 h'
            \<and> mset (concat (grid h' 0)) = mset (concat (grid img_2x3 0))
            \<and> pixel_values h' 0 = pixel_values img_2x3 0)
       \<and> (\<forall>right. \<exists>h'. rotate_image img_2x3 0 (VBool right) = Inr (h', VBool True)
            \<and> pixels_kept img_2x3 h'
            \<and> mset (concat (grid h' 0)) = mset (concat (grid img_2x3 0))
            \<and> pixel_values h' 0 = pixel_values img_2x3 0)"
  using relocation_keeps_pixels[OF rect_img_2x3] rect_img_2x3 by blast

end
